theory Spec2Isabelle
  imports
    Main
    "HOL-Library.AList"
    "HOL-Library.Char_ord"
    "HOL-Library.List_Lexorder"
    "HOL-Library.Product_Lexorder"
    "HOL-Library.Sublist"
begin

section \<open>Text primitives of the Python runtime\<close>

text \<open>
  The scripts work on Python \<open>str\<close> values. A text is modelled as a \<^typ>\<open>string\<close>; a
  \<^typ>\<open>char\<close> stands for the code point of the same number, so the model covers the
  code points 0 to 255. Line boundaries and white space are classified as Python does in
  that range; \<open>str.upper\<close> is modelled on the ASCII letters (the option names of a kernel
  configuration are ASCII) and leaves every other character alone, as Python does on a
  text of ASCII characters: the general statements about the policy file below are made
  for such texts.
  \<open>startswith\<close> is \<^const>\<open>prefix\<close>, \<open>endswith\<close> is \<^const>\<open>suffix\<close> and the substring test
  \<open>a in b\<close> is \<^const>\<open>sublist\<close>.
\<close>

definition NL :: char where
  "NL = CHR 0x0A"

definition CR :: char where
  "CR = CHR 0x0D"

definition BSL :: char where
  "BSL = CHR 0x5C"

definition is_linebreak :: "char \<Rightarrow> bool" where
  \<comment> \<open>the line boundaries of \<open>str.splitlines\<close> below code point 256\<close>
  "is_linebreak c = (c \<in> {CHR 0x0A, CHR 0x0B, CHR 0x0C, CHR 0x0D, CHR 0x1C, CHR 0x1D, CHR 0x1E, CHR 0x85})"

definition is_space :: "char \<Rightarrow> bool" where
  \<comment> \<open>\<open>str.isspace\<close> below code point 256\<close>
  "is_space c = (c \<in> {CHR 0x09, CHR 0x0A, CHR 0x0B, CHR 0x0C, CHR 0x0D, CHR 0x1C, CHR 0x1D, CHR 0x1E,
                       CHR 0x1F, CHR 0x20, CHR 0x85, CHR 0xA0})"

fun splitlines :: "string \<Rightarrow> string list" where
  \<comment> \<open>\<open>str.splitlines()\<close>: CR LF is one boundary; no empty last line after a final boundary\<close>
  "splitlines [] = []"
| "splitlines [c] = (if is_linebreak c then [[]] else [[c]])"
| "splitlines (c # d # ds) =
     (if c = CR \<and> d = NL then [] # splitlines ds
      else if is_linebreak c then [] # splitlines (d # ds)
      else (case splitlines (d # ds) of
              [] \<Rightarrow> [[c]]
            | l # ls \<Rightarrow> (c # l) # ls))"

fun join :: "string \<Rightarrow> string list \<Rightarrow> string" where
  \<comment> \<open>\<open>sep.join(parts)\<close>\<close>
  "join sep [] = []"
| "join sep [x] = x"
| "join sep (x # y # ys) = x @ sep @ join sep (y # ys)"

definition strip :: "string \<Rightarrow> string" where
  \<comment> \<open>\<open>str.strip()\<close>\<close>
  "strip s = rev (dropWhile is_space (rev (dropWhile is_space s)))"

definition upper_char :: "char \<Rightarrow> char" where
  "upper_char c = (if CHR ''a'' \<le> c \<and> c \<le> CHR ''z'' then char_of (of_char c - (32::nat)) else c)"

definition upper :: "string \<Rightarrow> string" where
  \<comment> \<open>\<open>str.upper()\<close> on ASCII\<close>
  "upper s = map upper_char s"

definition removeprefix :: "string \<Rightarrow> string \<Rightarrow> string" where
  \<comment> \<open>\<open>s.removeprefix(p)\<close>\<close>
  "removeprefix p s = (if prefix p s then drop (length p) s else s)"

definition before_eq :: "string \<Rightarrow> string" where
  \<comment> \<open>\<open>s.split("=")[0]\<close> and the first component of \<open>s.partition("=")\<close>\<close>
  "before_eq s = takeWhile (\<lambda>c. c \<noteq> CHR ''='') s"

definition after_eq :: "string \<Rightarrow> string" where
  \<comment> \<open>\<open>s.split("=", 1)[1]\<close> when \<open>s\<close> has an equals sign, and the last component of
      \<open>s.partition("=")\<close> (empty when there is none)\<close>
  "after_eq s = drop 1 (dropWhile (\<lambda>c. c \<noteq> CHR ''='') s)"

fun split_ws :: "string \<Rightarrow> string list" where
  \<comment> \<open>\<open>str.split()\<close>: the maximal runs of characters that are not white space\<close>
  "split_ws [] = []"
| "split_ws (c # cs) =
     (if is_space c then split_ws cs
      else (case cs of
              [] \<Rightarrow> [[c]]
            | d # ds \<Rightarrow>
                if is_space d then [c] # split_ws cs
                else (case split_ws cs of
                        [] \<Rightarrow> [[c]]
                      | w # ws \<Rightarrow> (c # w) # ws)))"

function replace :: "string \<Rightarrow> string \<Rightarrow> string \<Rightarrow> string" where
  \<comment> \<open>\<open>s.replace(old, new)\<close>: every occurrence, left to right, without overlap; with an
      empty \<open>old\<close> Python puts \<open>new\<close> before every character and at the end\<close>
  "replace old new s =
     (if old = [] then new @ concat (map (\<lambda>c. c # new) s)
      else if s = [] then []
      else if prefix old s then new @ replace old new (drop (length old) s)
      else hd s # replace old new (tl s))"
  by pat_completeness auto
termination
  by (relation "measure (\<lambda>(old, new, s). length s)") auto

declare replace.simps [simp del]

definition ljust :: "nat \<Rightarrow> string \<Rightarrow> string" where
  \<comment> \<open>the format specification \<open>{s:Ns}\<close>: pad with blanks on the right up to width \<open>N\<close>\<close>
  "ljust n s = s @ replicate (n - length s) (CHR '' '')"

fun first_index :: "('a \<Rightarrow> bool) \<Rightarrow> 'a list \<Rightarrow> nat option" where
  \<comment> \<open>the index at which a \<open>for i, x in enumerate(xs)\<close> loop first meets an element with \<open>P\<close>\<close>
  "first_index P [] = None"
| "first_index P (x # xs) = (if P x then Some 0 else map_option Suc (first_index P xs))"

definition insert_at :: "nat \<Rightarrow> 'a \<Rightarrow> 'a list \<Rightarrow> 'a list" where
  \<comment> \<open>\<open>xs.insert(k, x)\<close> for \<open>k \<ge> 0\<close>; an index past the end appends\<close>
  "insert_at k x xs = take k xs @ x # drop k xs"


section \<open>The regular expressions of \<open>set_config_line\<close>\<close>

text \<open>
  \<open>set_config_line\<close> compiles \<open>^KEY=.*$\<close> and \<open>^# KEY is not set$\<close> with \<open>re.MULTILINE\<close>,
  the key escaped, so that each pattern is a literal text between \<open>^\<close> and \<open>.*$\<close> or \<open>$\<close>.
  In that mode \<open>^\<close> holds at the start of the text and after a line feed, \<open>$\<close> at the end
  of the text and before a line feed, and \<open>.\<close> matches everything but a line feed.
  \<open>match_here\<close> is the match of a pattern at the start of a text, with what follows it;
  \<open>search_from\<close> and \<open>sub_from\<close> walk through the text as the regular expression engine
  does, left to right, the flag telling whether \<open>^\<close> holds at the current place. The
  literal may hold line feeds; a match then runs over several lines.

  The second argument of \<open>pattern.sub\<close> is a replacement template: Python reads backslash
  escapes and group references in it before it substitutes. \<open>parse_template\<close> follows
  \<open>re._parser.parse_template\<close> for a pattern without groups: \<open>\g<0>\<close> is the whole match,
  any other group reference is an error.

  \<open>split_nl\<close> cuts a text into its segments between line feeds; \<open>join [NL]\<close> puts them
  together again.
\<close>

fun split_nl :: "string \<Rightarrow> string list" where
  "split_nl [] = [[]]"
| "split_nl (c # cs) =
     (if c = NL then [] # split_nl cs
      else (case split_nl cs of
              [] \<Rightarrow> [[c]]
            | l # ls \<Rightarrow> (c # l) # ls))"

datatype error =
    FileNotFoundError
  | TemplateError        \<comment> \<open>\<open>re.error\<close> or \<open>IndexError\<close> raised for a bad replacement template\<close>
  | ConfigParserError    \<comment> \<open>any exception of \<open>configparser\<close>\<close>
  | IndexError

datatype piece = Lit char | Group0

datatype tstate = TNormal | TEscape | TGroup | TName bool

definition is_octdigit :: "char \<Rightarrow> bool" where
  "is_octdigit c = (CHR ''0'' \<le> c \<and> c \<le> CHR ''7'')"

definition is_digit :: "char \<Rightarrow> bool" where
  "is_digit c = (CHR ''0'' \<le> c \<and> c \<le> CHR ''9'')"

definition is_ascii_letter :: "char \<Rightarrow> bool" where
  "is_ascii_letter c = ((CHR ''a'' \<le> c \<and> c \<le> CHR ''z'') \<or> (CHR ''A'' \<le> c \<and> c \<le> CHR ''Z''))"

definition digit_val :: "char \<Rightarrow> nat" where
  "digit_val c = of_char c - 48"

definition escape_char :: "char \<Rightarrow> char option" where
  \<comment> \<open>the table \<open>ESCAPES\<close> of \<open>re._parser\<close>\<close>
  "escape_char c =
     (if c = CHR ''a'' then Some (CHR 0x07)
      else if c = CHR ''b'' then Some (CHR 0x08)
      else if c = CHR ''f'' then Some (CHR 0x0C)
      else if c = CHR ''n'' then Some (CHR 0x0A)
      else if c = CHR ''r'' then Some (CHR 0x0D)
      else if c = CHR ''t'' then Some (CHR 0x09)
      else if c = CHR ''v'' then Some (CHR 0x0B)
      else if c = BSL then Some BSL
      else None)"

definition emit :: "piece list \<Rightarrow> error + piece list \<Rightarrow> error + piece list" where
  "emit ps r = (case r of Inl e \<Rightarrow> Inl e | Inr qs \<Rightarrow> Inr (ps @ qs))"

fun template :: "tstate \<Rightarrow> string \<Rightarrow> error + piece list" where
  "template TNormal [] = Inr []"
| "template TNormal (c # cs) =
     (if c = BSL then template TEscape cs else emit [Lit c] (template TNormal cs))"
| "template TEscape [] = Inl TemplateError"
| "template TEscape (c # cs) =
     (if c = CHR ''g'' then template TGroup cs
      else if c = CHR ''0'' then
        (case cs of
           [] \<Rightarrow> emit [Lit (char_of (0::nat))] (template TNormal cs)
         | a # as \<Rightarrow>
             if is_octdigit a then
               (case as of
                  [] \<Rightarrow> emit [Lit (char_of (digit_val a))] (template TNormal as)
                | b # bs \<Rightarrow>
                    if is_octdigit b
                    then emit [Lit (char_of (8 * digit_val a + digit_val b))] (template TNormal bs)
                    else emit [Lit (char_of (digit_val a))] (template TNormal as))
             else emit [Lit (char_of (0::nat))] (template TNormal cs))
      else if is_digit c then
        (case cs of
           a # b # bs \<Rightarrow>
             if is_octdigit c \<and> is_octdigit a \<and> is_octdigit b
                \<and> 64 * digit_val c + 8 * digit_val a + digit_val b \<le> 255
             then emit [Lit (char_of (64 * digit_val c + 8 * digit_val a + digit_val b))]
                    (template TNormal bs)
             else Inl TemplateError
         | _ \<Rightarrow> Inl TemplateError)
      else (case escape_char c of
              Some e \<Rightarrow> emit [Lit e] (template TNormal cs)
            | None \<Rightarrow>
                if is_ascii_letter c then Inl TemplateError
                else emit [Lit BSL, Lit c] (template TNormal cs)))"
| "template TGroup [] = Inl TemplateError"
| "template TGroup (c # cs) =
     (if c = CHR ''<'' then template (TName False) cs else Inl TemplateError)"
| "template (TName seen) [] = Inl TemplateError"
| "template (TName seen) (c # cs) =
     (if c = CHR ''0'' then template (TName True) cs
      else if c = CHR ''>'' \<and> seen then emit [Group0] (template TNormal cs)
      else Inl TemplateError)"

definition parse_template :: "string \<Rightarrow> error + piece list" where
  "parse_template repl = template TNormal repl"

fun expand_piece :: "string \<Rightarrow> piece \<Rightarrow> string" where
  "expand_piece m (Lit c) = [c]"
| "expand_piece m Group0 = m"

definition expand :: "piece list \<Rightarrow> string \<Rightarrow> string" where
  \<comment> \<open>the text that replaces the match \<open>m\<close>\<close>
  "expand ps m = concat (map (expand_piece m) ps)"

datatype pattern =
    Line_from string   \<comment> \<open>\<open>^LITERAL.*$\<close>\<close>
  | Line_is string     \<comment> \<open>\<open>^LITERAL$\<close>\<close>

fun literal :: "pattern \<Rightarrow> string" where
  "literal (Line_from lit) = lit"
| "literal (Line_is lit) = lit"

fun match_here :: "pattern \<Rightarrow> string \<Rightarrow> (string \<times> string) option" where
  \<comment> \<open>the match that starts at the beginning of \<open>s\<close>, where \<open>^\<close> holds, and the rest of \<open>s\<close>\<close>
  "match_here (Line_from lit) s =
     (if prefix lit s then
        (let rest = drop (length lit) s in
         Some (lit @ takeWhile (\<lambda>c. c \<noteq> NL) rest, dropWhile (\<lambda>c. c \<noteq> NL) rest))
      else None)"
| "match_here (Line_is lit) s =
     (if prefix lit s then
        (let rest = drop (length lit) s in
         if rest = [] \<or> prefix [NL] rest then Some (lit, rest) else None)
      else None)"

fun search_from :: "pattern \<Rightarrow> bool \<Rightarrow> string \<Rightarrow> bool" where
  \<comment> \<open>is there a match in \<open>s\<close>; \<open>bol\<close> tells whether \<open>^\<close> holds at its start\<close>
  "search_from p bol [] = (bol \<and> match_here p [] \<noteq> None)"
| "search_from p bol (c # cs) =
     ((bol \<and> match_here p (c # cs) \<noteq> None) \<or> search_from p (c = NL) cs)"

function sub_from :: "pattern \<Rightarrow> piece list \<Rightarrow> bool \<Rightarrow> string \<Rightarrow> string" where
  \<comment> \<open>every match in \<open>s\<close> replaced, left to right; the patterns of \<open>set_config_line\<close> have
      a literal that is not empty, so no match is empty\<close>
  "sub_from p ps bol s =
     (case (if bol \<and> literal p \<noteq> [] then match_here p s else None) of
        Some (m, rest) \<Rightarrow> expand ps m @ sub_from p ps (last m = NL) rest
      | None \<Rightarrow>
          (case s of
             [] \<Rightarrow> []
           | c # cs \<Rightarrow> c # sub_from p ps (c = NL) cs))"
  by pat_completeness auto
termination
proof (relation "measure (\<lambda>(p, ps, bol, s). length s)")
  fix p :: pattern and s m rest :: string and bol :: bool and x :: "string \<times> string"
  assume "(if bol \<and> literal p \<noteq> [] then match_here p s else None) = Some x" "(m, rest) = x"
  then have m: "match_here p s = Some (m, rest)" and l: "literal p \<noteq> []"
    by (auto split: if_splits)
  obtain a lit where lit: "literal p = a # lit" using l by (cases "literal p") auto
  have "length rest < length s"
    using m lit
    by (cases p)
       (auto simp: prefix_def Let_def le_imp_less_Suc trans_le_add2 length_dropWhile_le
             split: if_splits)
  then show "((p, ps, last m = NL, rest), (p, ps, bol, s)) \<in> measure (\<lambda>(p, ps, bol, s). length s)"
    for ps :: "piece list"
    by simp
qed auto

declare sub_from.simps [simp del]

definition re_search :: "pattern \<Rightarrow> string \<Rightarrow> bool" where
  \<comment> \<open>\<open>pattern.search(text)\<close> is not \<open>None\<close>\<close>
  "re_search p text = search_from p True text"

definition re_sub :: "pattern \<Rightarrow> string \<Rightarrow> string \<Rightarrow> error + string" where
  \<comment> \<open>\<open>pattern.sub(repl, text)\<close>\<close>
  "re_sub p repl text =
     (case parse_template repl of
        Inl e \<Rightarrow> Inl e
      | Inr ps \<Rightarrow> Inr (sub_from p ps True text))"


section \<open>The file system\<close>

text \<open>
  A path is a file name in one of the two directories the scripts use, the configuration
  directory \<open>~/sky1-linux-distro/linux-sky1/config\<close> and \<open>~/mainline-linux\<close>, or any other
  path (the arguments of \<open>--review\<close>). The file system is an association list from
  paths to the contents of regular files; a lookup sees the first entry of a path and a
  write replaces it, or adds the file at the end.

  \<open>Path.read_text()\<close> opens the file in text mode with universal newlines: a carriage
  return followed by a line feed, and a carriage return alone, are read as one line
  feed. \<open>Path.write_text()\<close> writes a line feed as the line separator of the platform,
  which is the line feed itself on Linux, where the scripts run: the text is stored as
  it is.
\<close>

datatype path = ConfigDir string | Mainline string | Elsewhere string

type_synonym fs = "(path \<times> string) list"

definition exists :: "fs \<Rightarrow> path \<Rightarrow> bool" where
  "exists fs p = (map_of fs p \<noteq> None)"

fun universal_newlines :: "string \<Rightarrow> string" where
  "universal_newlines [] = []"
| "universal_newlines [c] = (if c = CR then [NL] else [c])"
| "universal_newlines (c # d # ds) =
     (if c = CR \<and> d = NL then NL # universal_newlines ds
      else if c = CR then NL # universal_newlines (d # ds)
      else c # universal_newlines (d # ds))"

definition read_text :: "fs \<Rightarrow> path \<Rightarrow> error + string" where
  "read_text fs p =
     (case map_of fs p of
        None \<Rightarrow> Inl FileNotFoundError
      | Some t \<Rightarrow> Inr (universal_newlines t))"

definition write_text :: "fs \<Rightarrow> path \<Rightarrow> string \<Rightarrow> fs" where
  "write_text fs p t = AList.update p t fs"

definition POLICY_FILE :: path where
  "POLICY_FILE = ConfigDir ''config-policy.ini''"

definition README_FILE :: path where
  "README_FILE = ConfigDir ''README.md''"

definition TRACK_CONFIGS :: "path list" where
  "TRACK_CONFIGS =
     [ConfigDir ''config.sky1'', ConfigDir ''config.sky1-latest'',
      ConfigDir ''config.sky1-rc'', ConfigDir ''config.sky1-next'']"

fun mainline_name :: "path \<times> string \<Rightarrow> string option" where
  "mainline_name (Mainline n, t) = Some n"
| "mainline_name (p, t) = None"

definition find_dev_configs :: "fs \<Rightarrow> path list" where
  \<comment> \<open>\<open>sorted(MAINLINE.glob("config.sky1*"))\<close>\<close>
  "find_dev_configs fs =
     map Mainline
       (sort (remdups (filter (prefix ''config.sky1'') (List.map_filter mainline_name fs))))"


section \<open>\<open>manage-config.py\<close>\<close>

definition normalize_option :: "string \<Rightarrow> string" where
  "normalize_option name = removeprefix ''CONFIG_'' name"

subsection \<open>Config file operations\<close>

fun get_config_value_lines :: "string \<Rightarrow> string list \<Rightarrow> string option" where
  "get_config_value_lines key [] = None"
| "get_config_value_lines key (line # rest) =
     (if prefix (key @ ''='') line then Some (after_eq line)
      else if line = ''# '' @ key @ '' is not set'' then Some ''n''
      else get_config_value_lines key rest)"

definition get_config_value :: "fs \<Rightarrow> path \<Rightarrow> string \<Rightarrow> error + string option" where
  "get_config_value fs p option =
     (case read_text fs p of
        Inl e \<Rightarrow> Inl e
      | Inr text \<Rightarrow> Inr (get_config_value_lines (''CONFIG_'' @ option) (splitlines text)))"

definition pattern_enabled :: "string \<Rightarrow> pattern" where
  \<comment> \<open>\<open>re.compile(rf"^{re.escape(key)}=.*$", re.MULTILINE)\<close>\<close>
  "pattern_enabled key = Line_from (key @ ''='')"

definition pattern_disabled :: "string \<Rightarrow> pattern" where
  \<comment> \<open>\<open>re.compile(rf"^# {re.escape(key)} is not set$", re.MULTILINE)\<close>\<close>
  "pattern_disabled key = Line_is (''# '' @ key @ '' is not set'')"

definition set_config_line :: "string \<Rightarrow> string \<Rightarrow> string \<Rightarrow> error + (string \<times> bool)" where
  "set_config_line text option value =
     (let key = ''CONFIG_'' @ option;
          new_line = (if value = ''n'' then ''# '' @ key @ '' is not set''
                      else key @ ''='' @ value)
      in if re_search (pattern_enabled key) text then
           (case re_sub (pattern_enabled key) new_line text of
              Inl e \<Rightarrow> Inl e
            | Inr new_text \<Rightarrow> Inr (new_text, new_text \<noteq> text))
         else if re_search (pattern_disabled key) text then
           (case re_sub (pattern_disabled key) new_line text of
              Inl e \<Rightarrow> Inl e
            | Inr new_text \<Rightarrow> Inr (new_text, new_text \<noteq> text))
         else Inr (text, False))"

subsection \<open>Policy file operations\<close>

fun get_policy_entry_lines :: "string \<Rightarrow> string option \<Rightarrow> string list \<Rightarrow> (string \<times> string) option" where
  "get_policy_entry_lines bare section [] = None"
| "get_policy_entry_lines bare section (line # rest) =
     (let line_stripped = strip line in
      if prefix ''['' line_stripped \<and> suffix '']'' line_stripped
      then get_policy_entry_lines bare (Some (butlast (tl line_stripped))) rest
      else if CHR ''='' \<in> set line_stripped \<and> \<not> prefix ''#'' line_stripped then
        (if upper (strip (before_eq line_stripped)) = bare
         then Some (case section of
                      None \<Rightarrow> ''unknown''
                    | Some s \<Rightarrow> if s = [] then ''unknown'' else s,
                    strip (after_eq line_stripped))
         else get_policy_entry_lines bare section rest)
      else get_policy_entry_lines bare section rest)"

definition get_policy_entry :: "fs \<Rightarrow> string \<Rightarrow> (string \<times> string) option" where
  "get_policy_entry fs option =
     (case map_of fs POLICY_FILE of
        None \<Rightarrow> None
      | Some t \<Rightarrow>
          get_policy_entry_lines (upper option) None (splitlines (universal_newlines t)))"

definition is_policy_line :: "string \<Rightarrow> string \<Rightarrow> bool" where
  \<comment> \<open>the test both \<open>set_policy_entry\<close> and \<open>remove_policy_entry\<close> make on a line\<close>
  "is_policy_line bare line =
     (let stripped = strip line in
      CHR ''='' \<in> set stripped \<and> \<not> prefix ''#'' stripped \<and> \<not> prefix ''['' stripped
      \<and> upper (strip (before_eq stripped)) = bare)"

fun section_scan :: "string \<Rightarrow> string list \<Rightarrow> nat \<Rightarrow> bool \<Rightarrow> nat option \<Rightarrow> nat option" where
  \<comment> \<open>the second loop of \<open>set_policy_entry\<close>; the result is \<open>insert_at\<close>\<close>
  "section_scan section_header [] i in_section ins = ins"
| "section_scan section_header (line # rest) i in_section ins =
     (let stripped = strip line in
      if stripped = section_header then section_scan section_header rest (Suc i) True ins
      else if in_section then
        (if prefix ''['' stripped then Some i
         else if stripped = [] then Some i
         else section_scan section_header rest (Suc i) in_section (Some (Suc i)))
      else section_scan section_header rest (Suc i) in_section ins)"

definition set_policy_entry :: "string \<Rightarrow> string \<Rightarrow> string \<Rightarrow> string \<Rightarrow> string \<times> bool" where
  "set_policy_entry text option value section =
     (let bare = upper option;
          new_entry = bare @ ''='' @ value;
          lines = splitlines text
      in case first_index (is_policy_line bare) lines of
           Some i \<Rightarrow>
             if strip (lines ! i) = new_entry then (text, False)
             else (join [NL] (lines[i := new_entry]) @ [NL], True)
         | None \<Rightarrow>
             (let section_header = ''['' @ section @ '']'' in
              case section_scan section_header lines 0 False None of
                Some k \<Rightarrow> (join [NL] (insert_at k new_entry lines) @ [NL], True)
              | None \<Rightarrow>
                  (join [NL] (lines @ [NL # section_header, new_entry]) @ [NL], True)))"

fun remove_policy_lines :: "string \<Rightarrow> string list \<Rightarrow> string list \<Rightarrow> bool \<Rightarrow> string list \<times> bool" where
  "remove_policy_lines bare [] new_lines removed = (new_lines, removed)"
| "remove_policy_lines bare (line # rest) new_lines removed =
     (if is_policy_line bare line then remove_policy_lines bare rest new_lines True
      else remove_policy_lines bare rest (new_lines @ [line]) removed)"

definition remove_policy_entry :: "string \<Rightarrow> string \<Rightarrow> string \<times> bool" where
  "remove_policy_entry text option =
     (case remove_policy_lines (upper option) (splitlines text) [] False of
        (new_lines, removed) \<Rightarrow> (join [NL] new_lines @ [NL], removed))"

subsection \<open>README operations\<close>

definition is_readme_row :: "string \<Rightarrow> string \<Rightarrow> bool" where
  \<comment> \<open>\<open>key in line and line.startswith("|")\<close>\<close>
  "is_readme_row key line = (sublist key line \<and> prefix ''|'' line)"

definition get_readme_entry :: "fs \<Rightarrow> string \<Rightarrow> string option" where
  "get_readme_entry fs option =
     (case map_of fs README_FILE of
        None \<Rightarrow> None
      | Some t \<Rightarrow>
          map_option strip
            (find (is_readme_row (''`'' @ option @ ''`'')) (splitlines (universal_newlines t))))"

fun table_scan :: "string \<Rightarrow> string list \<Rightarrow> nat \<Rightarrow> bool \<Rightarrow> bool \<Rightarrow> nat option \<Rightarrow> nat option" where
  \<comment> \<open>the second loop of \<open>add_readme_entry\<close>; the result is \<open>insert_at\<close>\<close>
  "table_scan heading_pattern [] i in_section in_table ins = ins"
| "table_scan heading_pattern (line # rest) i in_section in_table ins =
     (if strip line = heading_pattern
      then table_scan heading_pattern rest (Suc i) True in_table ins
      else if in_section then
        (if prefix ''|---'' line \<or> prefix ''| ---'' line
         then table_scan heading_pattern rest (Suc i) in_section True ins
         else if in_table then
           (if prefix ''|'' line
            then table_scan heading_pattern rest (Suc i) in_section in_table (Some (Suc i))
            else Some i)
         else table_scan heading_pattern rest (Suc i) in_section in_table ins)
      else table_scan heading_pattern rest (Suc i) in_section in_table ins)"

definition add_readme_insert :: "string \<Rightarrow> string \<Rightarrow> string \<Rightarrow> string \<times> bool" where
  \<comment> \<open>the part of \<open>add_readme_entry\<close> after the update of an existing row\<close>
  "add_readme_insert text heading new_row =
     (let lines = splitlines text in
      case table_scan (''## '' @ heading) lines 0 False False None of
        Some k \<Rightarrow> (join [NL] (insert_at k new_row lines) @ [NL], True)
      | None \<Rightarrow> (text, False))"

definition add_readme_entry :: "string \<Rightarrow> string \<Rightarrow> string \<Rightarrow> string \<Rightarrow> string \<Rightarrow> string \<times> bool" where
  "add_readme_entry text option heading opt_type desc =
     (let key = ''`'' @ option @ ''`'';
          new_row = ''| `'' @ option @ ''` | '' @ opt_type @ '' | '' @ desc @ '' |''
      in if sublist key text then
           (let lines = splitlines text in
            case first_index (is_readme_row key) lines of
              Some i \<Rightarrow>
                if strip (lines ! i) = new_row then (text, False)
                else (join [NL] (lines[i := new_row]) @ [NL], True)
            | None \<Rightarrow> add_readme_insert text heading new_row)
         else add_readme_insert text heading new_row)"

fun remove_readme_lines :: "string \<Rightarrow> string list \<Rightarrow> string list \<Rightarrow> bool \<Rightarrow> string list \<times> bool" where
  "remove_readme_lines key [] new_lines removed = (new_lines, removed)"
| "remove_readme_lines key (line # rest) new_lines removed =
     (if is_readme_row key line then remove_readme_lines key rest new_lines True
      else remove_readme_lines key rest (new_lines @ [line]) removed)"

definition remove_readme_entry :: "string \<Rightarrow> string \<Rightarrow> string \<times> bool" where
  "remove_readme_entry text option =
     (case remove_readme_lines (''`'' @ option @ ''`'') (splitlines text) [] False of
        (new_lines, removed) \<Rightarrow> (join [NL] new_lines @ [NL], removed))"

subsection \<open>Commands\<close>

text \<open>
  A command returns the file system it leaves behind together with its outcome: the
  exception that ended it, or its result, the exit status, the planned changes
  \<open>(path, description, new text)\<close>, the track files it warned about and the files written.
  What a command prints is not modelled beyond these lists.
\<close>

type_synonym change = "path \<times> string \<times> string"

record cmd_result =
  exit_code :: int
  changes :: "change list"
  warnings :: "path list"
  written :: "path list"

fun plan_tracks ::
  "fs \<Rightarrow> string \<Rightarrow> string \<Rightarrow> path list \<Rightarrow> change list \<Rightarrow> path list
     \<Rightarrow> error + (change list \<times> path list)" where
  \<comment> \<open>the loop of \<open>cmd_set\<close> over \<open>TRACK_CONFIGS\<close>\<close>
  "plan_tracks fs option value [] chs warned = Inr (chs, warned)"
| "plan_tracks fs option value (p # ps) chs warned =
     (if \<not> exists fs p then plan_tracks fs option value ps chs warned
      else
        (case read_text fs p of
           Inl e \<Rightarrow> Inl e
         | Inr text \<Rightarrow>
             (case set_config_line text option value of
                Inl e \<Rightarrow> Inl e
              | Inr (new_text, changed) \<Rightarrow>
                  if changed
                  then plan_tracks fs option value ps
                         (chs @ [(p, ''set CONFIG_'' @ option @ ''='' @ value, new_text)]) warned
                  else
                    (case get_config_value fs p option of
                       Inl e \<Rightarrow> Inl e
                     | Inr old_val \<Rightarrow>
                         plan_tracks fs option value ps chs
                           (if old_val = None then warned @ [p] else warned)))))"

fun plan_dev :: "fs \<Rightarrow> string \<Rightarrow> string \<Rightarrow> path list \<Rightarrow> change list \<Rightarrow> error + change list" where
  \<comment> \<open>the loop of \<open>cmd_set\<close> over the dev copies\<close>
  "plan_dev fs option value [] chs = Inr chs"
| "plan_dev fs option value (p # ps) chs =
     (case read_text fs p of
        Inl e \<Rightarrow> Inl e
      | Inr text \<Rightarrow>
          (case set_config_line text option value of
             Inl e \<Rightarrow> Inl e
           | Inr (new_text, changed) \<Rightarrow>
               plan_dev fs option value ps
                 (if changed
                  then chs @ [(p, ''set CONFIG_'' @ option @ ''='' @ value, new_text)]
                  else chs)))"

definition plan_policy ::
  "fs \<Rightarrow> string \<Rightarrow> string \<Rightarrow> string option \<Rightarrow> change list \<Rightarrow> error + change list" where
  "plan_policy fs option value policy_section chs =
     (case policy_section of
        None \<Rightarrow> Inr chs
      | Some section \<Rightarrow>
          if section = [] then Inr chs
          else
            (case read_text fs POLICY_FILE of
               Inl e \<Rightarrow> Inl e
             | Inr text \<Rightarrow>
                 (case set_policy_entry text option value section of
                    (new_text, changed) \<Rightarrow>
                      Inr (if changed
                           then chs @ [(POLICY_FILE,
                                        ''add '' @ option @ ''='' @ value @ '' to ['' @ section @ '']'',
                                        new_text)]
                           else chs))))"

definition plan_readme ::
  "fs \<Rightarrow> string \<Rightarrow> string option \<Rightarrow> string option \<Rightarrow> string option \<Rightarrow> change list
     \<Rightarrow> error + change list" where
  \<comment> \<open>\<open>if doc_heading and doc_type and doc_desc\<close>: each given and not empty\<close>
  "plan_readme fs option doc_heading doc_type doc_desc chs =
     (case (doc_heading, doc_type, doc_desc) of
        (Some heading, Some opt_type, Some desc) \<Rightarrow>
          if heading = [] \<or> opt_type = [] \<or> desc = [] then Inr chs
          else
            (case read_text fs README_FILE of
               Inl e \<Rightarrow> Inl e
             | Inr text \<Rightarrow>
                 (case add_readme_entry text option heading opt_type desc of
                    (new_text, changed) \<Rightarrow>
                      Inr (if changed
                           then chs @ [(README_FILE,
                                        ''add to '' @ [CHR 0x27] @ heading @ [CHR 0x27] @ '' table'',
                                        new_text)]
                           else chs)))
      | _ \<Rightarrow> Inr chs)"

definition plan_set ::
  "fs \<Rightarrow> string \<Rightarrow> string \<Rightarrow> string option \<Rightarrow> string option \<Rightarrow> string option \<Rightarrow> string option
     \<Rightarrow> error + (change list \<times> path list)" where
  \<comment> \<open>\<open>cmd_set\<close> up to its report: the list \<open>changes\<close> and the warnings\<close>
  "plan_set fs option value policy_section doc_heading doc_type doc_desc =
     (case plan_tracks fs option value TRACK_CONFIGS [] [] of
        Inl e \<Rightarrow> Inl e
      | Inr (chs1, warned) \<Rightarrow>
          (case plan_dev fs option value (find_dev_configs fs) chs1 of
             Inl e \<Rightarrow> Inl e
           | Inr chs2 \<Rightarrow>
               (case plan_policy fs option value policy_section chs2 of
                  Inl e \<Rightarrow> Inl e
                | Inr chs3 \<Rightarrow>
                    (case plan_readme fs option doc_heading doc_type doc_desc chs3 of
                       Inl e \<Rightarrow> Inl e
                     | Inr chs4 \<Rightarrow> Inr (chs4, warned)))))"

fun write_changes :: "fs \<Rightarrow> change list \<Rightarrow> fs" where
  \<comment> \<open>\<open>for path, desc, new_text in changes: path.write_text(new_text)\<close>\<close>
  "write_changes fs [] = fs"
| "write_changes fs ((p, desc, new_text) # rest) = write_changes (write_text fs p new_text) rest"

definition report :: "fs \<Rightarrow> change list \<Rightarrow> path list \<Rightarrow> bool \<Rightarrow> fs \<times> (error + cmd_result)" where
  \<comment> \<open>the common end of \<open>cmd_set\<close> and \<open>cmd_remove\<close>\<close>
  "report fs chs warned apply =
     (if chs = [] then
        (fs, Inr \<lparr>exit_code = 0, changes = chs, warnings = warned, written = []\<rparr>)
      else if apply then
        (write_changes fs chs,
         Inr \<lparr>exit_code = 0, changes = chs, warnings = warned, written = map fst chs\<rparr>)
      else
        (fs, Inr \<lparr>exit_code = 0, changes = chs, warnings = warned, written = []\<rparr>))"

definition cmd_set ::
  "fs \<Rightarrow> string \<Rightarrow> string \<Rightarrow> string option \<Rightarrow> string option \<Rightarrow> string option \<Rightarrow> string option
     \<Rightarrow> bool \<Rightarrow> fs \<times> (error + cmd_result)" where
  "cmd_set fs option0 value policy_section doc_heading doc_type doc_desc apply =
     (let option = normalize_option option0 in
      case plan_set fs option value policy_section doc_heading doc_type doc_desc of
        Inl e \<Rightarrow> (fs, Inl e)
      | Inr (chs, warned) \<Rightarrow> report fs chs warned apply)"

definition plan_remove :: "fs \<Rightarrow> string \<Rightarrow> bool \<Rightarrow> bool \<Rightarrow> error + change list" where
  "plan_remove fs option policy doc =
     (case (if policy \<and> exists fs POLICY_FILE then
              (case read_text fs POLICY_FILE of
                 Inl e \<Rightarrow> Inl e
               | Inr text \<Rightarrow>
                   (case remove_policy_entry text option of
                      (new_text, changed) \<Rightarrow>
                        Inr (if changed
                             then [(POLICY_FILE, ''remove '' @ option @ '' from policy'', new_text)]
                             else [])))
            else Inr []) of
        Inl e \<Rightarrow> Inl e
      | Inr chs \<Rightarrow>
          if doc \<and> exists fs README_FILE then
            (case read_text fs README_FILE of
               Inl e \<Rightarrow> Inl e
             | Inr text \<Rightarrow>
                 (case remove_readme_entry text option of
                    (new_text, changed) \<Rightarrow>
                      Inr (if changed
                           then chs @ [(README_FILE, ''remove '' @ option @ '' from README'', new_text)]
                           else chs)))
          else Inr chs)"

definition cmd_remove :: "fs \<Rightarrow> string \<Rightarrow> bool \<Rightarrow> bool \<Rightarrow> bool \<Rightarrow> fs \<times> (error + cmd_result)" where
  "cmd_remove fs option0 policy doc apply =
     (let option = normalize_option option0 in
      case plan_remove fs option policy doc of
        Inl e \<Rightarrow> (fs, Inl e)
      | Inr chs \<Rightarrow> report fs chs [] apply)"


section \<open>\<open>reconcile-configs.py\<close>\<close>

text \<open>
  A Python \<open>dict\<close> keeps its keys in the order of their first insertion, and an assignment to
  a key that is present replaces the value where it stands: a \<open>dict\<close> is an association list,
  \<open>d[k] = v\<close> is \<^const>\<open>AList.update\<close> and \<open>d.get(k)\<close> is \<^const>\<open>map_of\<close>.
\<close>

type_synonym dict = "(string \<times> string) list"

definition TRACKS :: "(string \<times> string) list" where
  "TRACKS =
     [(''LTS'', ''config.sky1''), (''Latest'', ''config.sky1-latest''),
      (''RC'', ''config.sky1-rc''), (''Next'', ''config.sky1-next'')]"

definition track_file :: "string \<Rightarrow> string" where
  \<comment> \<open>\<open>TRACKS[label]\<close>, for the labels of \<open>TRACKS\<close> (the keys of \<open>configs\<close>)\<close>
  "track_file label = (case map_of TRACKS label of Some filename \<Rightarrow> filename | None \<Rightarrow> [])"

definition IGNORE_PATTERNS :: "string list" where
  \<comment> \<open>each pattern is \<open>^\<close> followed by this literal text\<close>
  "IGNORE_PATTERNS =
     [''CONFIG_CC_VERSION_TEXT='', ''CONFIG_GCC_VERSION='', ''CONFIG_LD_VERSION='',
      ''CONFIG_CLANG_VERSION='', ''CONFIG_AS_VERSION='', ''CONFIG_PAHOLE_VERSION='',
      ''CONFIG_RUSTC_VERSION='', ''CONFIG_BINDGEN_VERSION='',
      ''CONFIG_KERNEL_VERSION_GENERATION='']"

definition SUBSYSTEM_PREFIXES :: "(string \<times> string) list" where
  "SUBSYSTEM_PREFIXES =
     [(''DRM_'', ''Display/GPU''), (''SND_'', ''Audio''), (''NET_'', ''Network''),
      (''NFT_'', ''Network/Netfilter''), (''NF_'', ''Network/Netfilter''),
      (''CRYPTO_'', ''Crypto''), (''SECURITY_'', ''Security''), (''USB_'', ''USB''),
      (''PHY_'', ''PHY''), (''PCI_'', ''PCI''), (''ARM64_'', ''ARM64''),
      (''ARCH_'', ''Architecture''), (''CIX_'', ''Sky1''), (''SKY1_'', ''Sky1''),
      (''LINLON'', ''Sky1''), (''TRILIN'', ''Sky1''), (''PANTHOR'', ''Sky1''),
      (''ARMCHINA'', ''Sky1''), (''CDNSP_SKY1'', ''Sky1'')]"

fun parse_config_lines :: "string list \<Rightarrow> dict \<Rightarrow> error + dict" where
  "parse_config_lines [] opts = Inr opts"
| "parse_config_lines (line # rest) opts =
     (if prefix ''CONFIG_'' line
      then parse_config_lines rest (AList.update (before_eq line) (after_eq line) opts)
      else if prefix ''# CONFIG_'' line \<and> suffix '' is not set'' line then
        (case split_ws line of
           w0 # key # ws \<Rightarrow> parse_config_lines rest (AList.update key ''n'' opts)
         | _ \<Rightarrow> Inl IndexError)
      else parse_config_lines rest opts)"

definition parse_config :: "fs \<Rightarrow> path \<Rightarrow> error + dict" where
  "parse_config fs p =
     (case read_text fs p of
        Inl e \<Rightarrow> Inl e
      | Inr text \<Rightarrow> parse_config_lines (splitlines text) [])"

text \<open>
  \<open>parse_policy\<close> reads the policy file with \<open>configparser\<close> of the standard library, which
  is not part of the repository: the reader is a parameter \<open>cp\<close> of the model, from the
  text of the file to the exception it raises or to what \<open>cp.sections()\<close> and
  \<open>cp.items(section)\<close> then return, the sections in the order of the file, each with its
  keys (in lower case) and values.
\<close>

type_synonym ini = "(string \<times> (string \<times> string) list) list"

fun policy_items :: "(string \<times> string) list \<Rightarrow> dict \<Rightarrow> dict" where
  \<comment> \<open>\<open>for key, val in cp.items(section): policy[f"CONFIG_{key.upper()}"] = val\<close>\<close>
  "policy_items [] policy = policy"
| "policy_items ((key, val) # rest) policy =
     policy_items rest (AList.update (''CONFIG_'' @ upper key) val policy)"

fun policy_sections :: "ini \<Rightarrow> dict \<Rightarrow> dict" where
  \<comment> \<open>\<open>for section in cp.sections(): ...\<close>\<close>
  "policy_sections [] policy = policy"
| "policy_sections ((section, items) # rest) policy =
     policy_sections rest (policy_items items policy)"

definition parse_policy :: "(string \<Rightarrow> error + ini) \<Rightarrow> fs \<Rightarrow> error + dict" where
  "parse_policy cp fs =
     (if \<not> exists fs POLICY_FILE then Inr []
      else case read_text fs POLICY_FILE of
        Inl e \<Rightarrow> Inl e
      | Inr text \<Rightarrow>
          (case cp text of
             Inl e \<Rightarrow> Inl e
           | Inr sections \<Rightarrow> Inr (policy_sections sections [])))"

definition is_ignored :: "string \<Rightarrow> bool" where
  "is_ignored line = list_ex (\<lambda>pat. prefix pat line) IGNORE_PATTERNS"

fun first_category :: "string \<Rightarrow> (string \<times> string) list \<Rightarrow> string" where
  "first_category name [] = ''Other''"
| "first_category name ((pre, category) # rest) =
     (if prefix pre name then category else first_category name rest)"

definition categorize_option :: "string \<Rightarrow> string" where
  "categorize_option opt = first_category (removeprefix ''CONFIG_'' opt) SUBSYSTEM_PREFIXES"

definition is_sky1_option :: "string \<Rightarrow> bool" where
  "is_sky1_option opt =
     (let name = removeprefix ''CONFIG_'' opt
      in list_ex (\<lambda>m. sublist m name)
           [''CIX'', ''SKY1'', ''LINLON'', ''TRILIN'', ''PANTHOR'', ''ARMCHINA'', ''CDNSP_SKY1''])"

subsection \<open>\<open>cmd_reconcile\<close>\<close>

type_synonym configs = "(string \<times> dict) list"

fun load_configs :: "fs \<Rightarrow> (string \<times> string) list \<Rightarrow> configs \<Rightarrow> error + configs" where
  \<comment> \<open>\<open>for label, filename in TRACKS.items(): if path.exists(): configs[label] = ...\<close>\<close>
  "load_configs fs [] configs = Inr configs"
| "load_configs fs ((label, filename) # rest) configs =
     (if exists fs (ConfigDir filename) then
        (case parse_config fs (ConfigDir filename) of
           Inl e \<Rightarrow> Inl e
         | Inr cfg \<Rightarrow> load_configs fs rest (AList.update label cfg configs))
      else load_configs fs rest configs)"

definition violation_missing :: "string \<Rightarrow> string \<Rightarrow> string \<Rightarrow> string" where
  "violation_missing label opt required_val =
     ''  '' @ ljust 25 (track_file label) @ '' '' @ opt @ ''  MISSING  (policy: '' @ required_val @ '')''"

definition violation_mismatch :: "string \<Rightarrow> string \<Rightarrow> string \<Rightarrow> string \<Rightarrow> string" where
  "violation_mismatch label opt actual required_val =
     ''  '' @ ljust 25 (track_file label) @ '' '' @ opt @ ''='' @ actual
       @ ''  (policy: '' @ required_val @ '')''"

fun check_tracks :: "string \<Rightarrow> string \<Rightarrow> configs \<Rightarrow> string list \<Rightarrow> string list" where
  \<comment> \<open>the inner loop of the policy check, for one policy entry\<close>
  "check_tracks opt required_val [] violations = violations"
| "check_tracks opt required_val ((label, cfg) # rest) violations =
     (case map_of cfg opt of
        None \<Rightarrow>
          check_tracks opt required_val rest
            (violations @ [violation_missing label opt required_val])
      | Some actual \<Rightarrow>
          if actual \<noteq> required_val
          then check_tracks opt required_val rest
                 (violations @ [violation_mismatch label opt actual required_val])
          else check_tracks opt required_val rest violations)"

fun check_policy :: "(string \<times> string) list \<Rightarrow> configs \<Rightarrow> string list \<Rightarrow> string list" where
  \<comment> \<open>the outer loop, over \<open>sorted(policy.items())\<close>\<close>
  "check_policy [] configs violations = violations"
| "check_policy ((opt, required_val) # rest) configs violations =
     check_policy rest configs (check_tracks opt required_val configs violations)"

definition fix_one ::
  "string \<Rightarrow> string \<Rightarrow> string \<times> dict \<Rightarrow> fs \<Rightarrow> nat \<Rightarrow> fs \<times> (error + nat)" where
  \<comment> \<open>the body of the inner loop of fix mode, for one policy entry and one track; the
      number is the counter \<open>fixed\<close>\<close>
  "fix_one opt required_val track fs fixed =
     (case map_of (snd track) opt of
        None \<Rightarrow> (fs, Inr fixed)
      | Some actual \<Rightarrow>
          if actual \<noteq> required_val then
            (let p = ConfigDir (track_file (fst track)) in
             case read_text fs p of
               Inl e \<Rightarrow> (fs, Inl e)
             | Inr text \<Rightarrow>
                 (let old = opt @ ''='' @ actual;
                      new = opt @ ''='' @ required_val
                  in if sublist old text
                     then (write_text fs p (replace old new text), Inr (Suc fixed))
                     else (fs, Inr fixed)))
          else (fs, Inr fixed))"

fun fix_tracks :: "string \<Rightarrow> string \<Rightarrow> configs \<Rightarrow> fs \<Rightarrow> nat \<Rightarrow> fs \<times> (error + nat)" where
  "fix_tracks opt required_val [] fs fixed = (fs, Inr fixed)"
| "fix_tracks opt required_val (track # rest) fs fixed =
     (case fix_one opt required_val track fs fixed of
        (fs', Inl e) \<Rightarrow> (fs', Inl e)
      | (fs', Inr fixed') \<Rightarrow> fix_tracks opt required_val rest fs' fixed')"

fun fix_policy :: "(string \<times> string) list \<Rightarrow> configs \<Rightarrow> fs \<Rightarrow> nat \<Rightarrow> fs \<times> (error + nat)" where
  "fix_policy [] configs fs fixed = (fs, Inr fixed)"
| "fix_policy ((opt, required_val) # rest) configs fs fixed =
     (case fix_tracks opt required_val configs fs fixed of
        (fs', Inl e) \<Rightarrow> (fs', Inl e)
      | (fs', Inr fixed') \<Rightarrow> fix_policy rest configs fs' fixed')"

definition sky1_opts :: "configs \<Rightarrow> string list" where
  \<comment> \<open>the set \<open>sky1_opts\<close>, as the list \<open>sorted(sky1_opts)\<close>\<close>
  "sky1_opts configs =
     sort (remdups (concat (map (\<lambda>(label, cfg). filter is_sky1_option (map fst cfg)) configs)))"

definition track_vals :: "configs \<Rightarrow> string \<Rightarrow> (string \<times> string) list" where
  \<comment> \<open>\<open>vals[label] = cfg.get(opt, "-")\<close>\<close>
  "track_vals configs opt =
     map (\<lambda>(label, cfg). (label, case map_of cfg opt of None \<Rightarrow> ''-'' | Some v \<Rightarrow> v)) configs"

definition is_divergent :: "configs \<Rightarrow> string \<Rightarrow> bool" where
  \<comment> \<open>\<open>len(unique) > 1\<close>\<close>
  "is_divergent configs opt = (1 < length (remdups (map snd (track_vals configs opt))))"

definition divergent_line :: "configs \<Rightarrow> string \<Rightarrow> string" where
  "divergent_line configs opt =
     ''  '' @ ljust 45 opt @ '' ''
       @ join ''  '' (map (\<lambda>(l, v). l @ ''='' @ v) (track_vals configs opt))
       @ (if is_divergent configs opt then '' ***'' else [])"

definition divergent_lines :: "configs \<Rightarrow> bool \<Rightarrow> string list" where
  "divergent_lines configs verbose =
     map (divergent_line configs)
       (filter (\<lambda>opt. is_divergent configs opt \<or> verbose) (sky1_opts configs))"

record reconcile_result =
  status :: int
  violations :: "string list"
  fixed :: nat
  divergent :: "string list"
  div_count :: nat
  sky1_total :: nat
  loaded :: "string list"

definition cmd_reconcile ::
  "(string \<Rightarrow> error + ini) \<Rightarrow> fs \<Rightarrow> bool \<Rightarrow> bool \<Rightarrow> fs \<times> (error + reconcile_result)" where
  "cmd_reconcile cp fs fix verbose =
     (case load_configs fs TRACKS [] of
        Inl e \<Rightarrow> (fs, Inl e)
      | Inr configs \<Rightarrow>
          if length configs < 2 then
            (fs, Inr \<lparr>status = 0, violations = [], fixed = 0, divergent = [], div_count = 0,
                      sky1_total = 0, loaded = map fst configs\<rparr>)
          else
            (case parse_policy cp fs of
               Inl e \<Rightarrow> (fs, Inl e)
             | Inr policy \<Rightarrow>
                 (let vs = (if policy \<noteq> [] then check_policy (sort policy) configs [] else []) in
                  case (if policy \<noteq> [] \<and> vs \<noteq> [] \<and> fix
                        then fix_policy (sort policy) configs fs 0
                        else (fs, Inr 0)) of
                    (fs', Inl e) \<Rightarrow> (fs', Inl e)
                  | (fs', Inr n) \<Rightarrow>
                      (let ds = divergent_lines configs verbose in
                       (fs',
                        Inr \<lparr>status = (if vs \<noteq> [] \<and> \<not> fix then 1 else 0),
                             violations = vs,
                             fixed = n,
                             divergent = ds,
                             div_count = length (filter (sublist ''***'') ds),
                             sky1_total = length (sky1_opts configs),
                             loaded = map fst configs\<rparr>)))))"

subsection \<open>\<open>cmd_review\<close>\<close>

function str_nat :: "nat \<Rightarrow> string" where
  \<comment> \<open>a number in an f-string: its decimal digits\<close>
  "str_nat n =
     (if n < 10 then [char_of (48 + n)] else str_nat (n div 10) @ [char_of (48 + n mod 10)])"
  by pat_completeness auto
termination
  by (relation "measure id") auto

declare str_nat.simps [simp del]

type_synonym buckets = "(string \<times> (string \<times> string) list) list"

definition bucket_append :: "string \<Rightarrow> string \<times> string \<Rightarrow> buckets \<Rightarrow> buckets" where
  \<comment> \<open>\<open>by_category[cat].append(item)\<close> on a \<open>defaultdict(list)\<close>\<close>
  "bucket_append cat item b =
     AList.update cat ((case map_of b cat of None \<Rightarrow> [] | Some items \<Rightarrow> items) @ [item]) b"

fun categorize_added :: "(string \<times> string) list \<Rightarrow> buckets \<Rightarrow> buckets" where
  "categorize_added [] b = b"
| "categorize_added ((opt, val) # rest) b =
     categorize_added rest (bucket_append (categorize_option opt) (opt, val) b)"

definition option_line :: "string \<times> string \<Rightarrow> string" where
  "option_line item = ''    '' @ fst item @ ''='' @ snd item"

fun priority_sections :: "string list \<Rightarrow> buckets \<Rightarrow> string list \<Rightarrow> buckets \<times> string list" where
  \<comment> \<open>the loop over the categories shown first; each one found is printed and popped\<close>
  "priority_sections [] b out = (b, out)"
| "priority_sections (cat # cats) b out =
     (case map_of b cat of
        Some items \<Rightarrow>
          priority_sections cats (AList.delete cat b)
            (out @ [NL # ''  ['' @ cat @ '']''] @ map option_line items)
      | None \<Rightarrow> priority_sections cats b out)"

definition other_section :: "string \<times> (string \<times> string) list \<Rightarrow> string list" where
  "other_section entry =
     (case entry of
        (cat, items) \<Rightarrow>
          if length items \<le> 10 then [NL # ''  ['' @ cat @ '']''] @ map option_line items
          else [NL # ''  ['' @ cat @ ''] ('' @ str_nat (length items) @ '' options, showing first 5)'']
               @ map option_line (take 5 items)
               @ [''    ... ('' @ str_nat (length items - 5) @ '' more)''])"

definition new_options_report :: "(string \<times> string) list \<Rightarrow> string list" where
  \<comment> \<open>the lines \<open>cmd_review\<close> prints for the added options\<close>
  "new_options_report added =
     (if added = [] then []
      else
        (case priority_sections
                [''Sky1'', ''Display/GPU'', ''Audio'', ''USB'', ''PCI'', ''PHY'', ''Network'']
                (categorize_added (sort added) [])
                [''--- NEW options ('' @ str_nat (length added) @ '') ---''] of
           (b, out) \<Rightarrow> out @ concat (map other_section (sort_key fst b)) @ [[]]))"

record review_result =
  added :: "(string \<times> string) list"
  removed :: "(string \<times> string) list"
  changed :: "(string \<times> string \<times> string) list"
  new_report :: "string list"

definition cmd_review :: "fs \<Rightarrow> path \<Rightarrow> path \<Rightarrow> error + (int \<times> review_result option)" where
  \<comment> \<open>the exit status, and the comparison when both files exist\<close>
  "cmd_review fs old_path new_path =
     (if \<not> exists fs old_path then Inr (1, None)
      else if \<not> exists fs new_path then Inr (1, None)
      else
        (case parse_config fs old_path of
           Inl e \<Rightarrow> Inl e
         | Inr old \<Rightarrow>
             (case parse_config fs new_path of
                Inl e \<Rightarrow> Inl e
              | Inr new \<Rightarrow>
                  (let a = filter (\<lambda>(k, v). map_of old k = None \<and> \<not> is_ignored (k @ ''='' @ v)) new;
                       r = filter (\<lambda>(k, v). map_of new k = None \<and> \<not> is_ignored (k @ ''='' @ v)) old;
                       c = List.map_filter
                             (\<lambda>(k, v). case map_of new k of
                                          None \<Rightarrow> None
                                        | Some v' \<Rightarrow>
                                            if v \<noteq> v' \<and> \<not> is_ignored (k @ ''='' @ v)
                                            then Some (k, v, v') else None) old
                   in Inr (0, Some \<lparr>added = a, removed = r, changed = c,
                                     new_report = new_options_report a\<rparr>)))))"


subsection \<open>Fix mode told step by step\<close>





subsection \<open>Predicates for the statements about the edits\<close>



text \<open>
  The edit of \<open>set_config_line\<close> told segment by segment, as it is for a key without line
  feed: a match of the first pattern is then a whole segment that starts with \<open>KEY=\<close>,
  a match of the second a segment equal to the comment.
\<close>

definition line_matches :: "pattern \<Rightarrow> string \<Rightarrow> bool" where
  "line_matches p seg = (case p of Line_from lit \<Rightarrow> prefix lit seg | Line_is lit \<Rightarrow> seg = lit)"

definition enabled_line :: "string \<Rightarrow> string \<Rightarrow> bool" where
  "enabled_line key seg = prefix (key @ ''='') seg"

definition disabled_line :: "string \<Rightarrow> string \<Rightarrow> bool" where
  "disabled_line key seg = (seg = ''# '' @ key @ '' is not set'')"

definition seg_search :: "(string \<Rightarrow> bool) \<Rightarrow> string \<Rightarrow> bool" where
  "seg_search matches text = list_ex matches (split_nl text)"

definition seg_sub :: "(string \<Rightarrow> bool) \<Rightarrow> string \<Rightarrow> string \<Rightarrow> error + string" where
  "seg_sub matches repl text =
     (case parse_template repl of
        Inl e \<Rightarrow> Inl e
      | Inr ps \<Rightarrow> Inr (join [NL] (map (\<lambda>l. if matches l then expand ps l else l) (split_nl text))))"

definition set_config_line_segs :: "string \<Rightarrow> string \<Rightarrow> string \<Rightarrow> error + (string \<times> bool)" where
  "set_config_line_segs text option value =
     (let key = ''CONFIG_'' @ option;
          new_line = (if value = ''n'' then ''# '' @ key @ '' is not set''
                      else key @ ''='' @ value)
      in if seg_search (enabled_line key) text then
           (case seg_sub (enabled_line key) new_line text of
              Inl e \<Rightarrow> Inl e
            | Inr new_text \<Rightarrow> Inr (new_text, new_text \<noteq> text))
         else if seg_search (disabled_line key) text then
           (case seg_sub (disabled_line key) new_line text of
              Inl e \<Rightarrow> Inl e
            | Inr new_text \<Rightarrow> Inr (new_text, new_text \<noteq> text))
         else Inr (text, False))"


definition is_ident_char :: "char \<Rightarrow> bool" where
  "is_ident_char c = (is_ascii_letter c \<or> is_digit c \<or> c = CHR ''_'')"

definition option_name :: "string \<Rightarrow> bool" where
  \<comment> \<open>an option name: letters, digits and underscores\<close>
  "option_name s = list_all is_ident_char s"

definition one_line :: "string \<Rightarrow> bool" where
  "one_line s = (\<not> list_ex is_linebreak s)"

definition plain_value :: "string \<Rightarrow> bool" where
  \<comment> \<open>a value on one line, without backslash, that does not end in white space\<close>
  "plain_value v = (one_line v \<and> BSL \<notin> set v \<and> (v = [] \<or> \<not> is_space (last v)))"


section \<open>Example inputs\<close>

definition fs_scenario :: fs where
  \<comment> \<open>two tracks: LTS lacks \<open>CONFIG_NET_FOO\<close>, RC has it as \<open>=n\<close>; the policy asks for \<open>y\<close>\<close>
  "fs_scenario =
     [(ConfigDir ''config.sky1'', ''CONFIG_A=y\<newline>''),
      (ConfigDir ''config.sky1-rc'', ''CONFIG_NET_FOO=n\<newline>''),
      (POLICY_FILE, ''[net]\<newline>NET_FOO=y\<newline>'')]"


definition cp_scenario :: "string \<Rightarrow> error + ini" where
  \<comment> \<open>what \<open>configparser\<close> reads from the policy file of \<open>fs_scenario\<close> and \<open>fs_not_set\<close>\<close>
  "cp_scenario text = Inr [(''net'', [(''net_foo'', ''y'')])]"

definition fs_scenario_fixed :: fs where
  \<comment> \<open>\<open>fs_scenario\<close> after fix mode\<close>
  "fs_scenario_fixed =
     [(ConfigDir ''config.sky1'', ''CONFIG_A=y\<newline>''),
      (ConfigDir ''config.sky1-rc'', ''CONFIG_NET_FOO=y\<newline>''),
      (POLICY_FILE, ''[net]\<newline>NET_FOO=y\<newline>'')]"

definition fs_one_track :: fs where
  \<comment> \<open>one track only, and it breaks the policy\<close>
  "fs_one_track =
     [(ConfigDir ''config.sky1-rc'', ''CONFIG_NET_FOO=n\<newline>''),
      (POLICY_FILE, ''[net]\<newline>NET_FOO=y\<newline>'')]"

definition policy_twice :: string where
  \<comment> \<open>a policy file with the option \<open>FOO\<close> under two sections\<close>
  "policy_twice = ''[a]\<newline>FOO=y\<newline>[b]\<newline>FOO=m\<newline>''"

definition cp_twice :: "string \<Rightarrow> error + ini" where
  \<comment> \<open>what \<open>configparser\<close> reads from \<open>policy_twice\<close>\<close>
  "cp_twice text = Inr [(''a'', [(''foo'', ''y'')]), (''b'', [(''foo'', ''m'')])]"

definition fs_review :: fs where
  "fs_review =
     [(Elsewhere ''old.config'', ''CONFIG_A=y\<newline>''),
      (Elsewhere ''new.config'', ''CONFIG_A=y\<newline>CONFIG_DRM_PANTHOR=y\<newline>'')]"


definition readme_example :: string where
  "readme_example =
     ''## USB Support\<newline>\<newline>| Option | Type | Description |\<newline>|---|---|---|\<newline>| `USB_A` | bool | a |\<newline>\<newline>## Other\<newline>''"

definition readme_example_set :: string where
  \<comment> \<open>\<open>readme_example\<close> with the row of \<open>USB_UAS\<close> added\<close>
  "readme_example_set =
     ''## USB Support\<newline>\<newline>| Option | Type | Description |\<newline>|---|---|---|\<newline>| `USB_A` | bool | a |\<newline>| `USB_UAS` | module | USB Attached SCSI |\<newline>\<newline>## Other\<newline>''"


section \<open>Properties\<close>

subsection \<open>Dry run\<close>

text \<open>
  Claim C1. Without the apply flag, \<open>set\<close> and \<open>remove\<close> write no file: the file system
  after the command is the file system before it, whatever plan was computed and also
  when the command ends in an exception.
\<close>

theorem dry_run_writes_nothing:
  "fst (cmd_set fs option value policy_section doc_heading doc_type doc_desc False) = fs
   \<and> fst (cmd_remove fs option policy doc False) = fs"
  by (simp add: cmd_set_def cmd_remove_def report_def Let_def split: sum.splits prod.splits)

text \<open>
  The plan is the same with and without the flag; only with it are the changes written.
\<close>

lemma cmd_set_plan_and_apply:
  "cmd_set [(ConfigDir ''config.sky1'', ''CONFIG_USB_UAS=y\<newline>CONFIG_B=n\<newline>'')]
      ''USB_UAS'' ''m'' None None None None False
     = ([(ConfigDir ''config.sky1'', ''CONFIG_USB_UAS=y\<newline>CONFIG_B=n\<newline>'')],
        Inr \<lparr>exit_code = 0,
             changes = [(ConfigDir ''config.sky1'', ''set CONFIG_USB_UAS=m'',
                         ''CONFIG_USB_UAS=m\<newline>CONFIG_B=n\<newline>'')],
             warnings = [], written = []\<rparr>)
   \<and> cmd_set [(ConfigDir ''config.sky1'', ''CONFIG_USB_UAS=y\<newline>CONFIG_B=n\<newline>'')]
      ''USB_UAS'' ''m'' None None None None True
     = ([(ConfigDir ''config.sky1'', ''CONFIG_USB_UAS=m\<newline>CONFIG_B=n\<newline>'')],
        Inr \<lparr>exit_code = 0,
             changes = [(ConfigDir ''config.sky1'', ''set CONFIG_USB_UAS=m'',
                         ''CONFIG_USB_UAS=m\<newline>CONFIG_B=n\<newline>'')],
             warnings = [], written = [ConfigDir ''config.sky1'']\<rparr>)"
  by code_simp

subsection \<open>Policy insertion\<close>

text \<open>
  Claim C6. Setting \<open>USB_UAS=m\<close> into the section \<open>[usb]\<close> that is empty and ends the
  file should give \<open>[usb]\<close>, then \<open>USB_UAS=m\<close>. The scan for the place of insertion sets
  \<open>insert_at\<close> only on a line after the header, so with the header as the last line it
  finds none, and the entry goes under a second header \<open>[usb]\<close> at the end of the file.
\<close>

theorem set_policy_entry_empty_last_section:
  "set_policy_entry ''[usb]\<newline>'' ''USB_UAS'' ''m'' ''usb''
     = (''[usb]\<newline>\<newline>[usb]\<newline>USB_UAS=m\<newline>'', True)"
  by code_simp

subsection \<open>An option under two sections\<close>

text \<open>
  Claim C7. With \<open>FOO\<close> under \<open>[a]\<close> and under \<open>[b]\<close>, the lookup of \<open>show\<close> returns the first
  occurrence, and the policy map of \<open>reconcile\<close> holds the last one: \<open>parse_policy\<close>
  assigns \<open>policy[key]\<close> section after section, and a later assignment replaces an
  earlier one.
\<close>

theorem duplicate_policy_key_show_first_reconcile_last:
  "get_policy_entry [(POLICY_FILE, policy_twice)] ''FOO'' = Some (''a'', ''y'')
   \<and> parse_policy cp_twice [(POLICY_FILE, policy_twice)] = Inr [(''CONFIG_FOO'', ''m'')]"
  by code_simp

subsection \<open>Missing files\<close>

text \<open>
  Claim C8. \<open>cmd_set\<close> reads the policy file and the README without asking whether they
  exist, as \<open>cmd_remove\<close> and the lookups of \<open>cmd_show\<close> do: with \<open>--policy\<close> and no policy
  file, or with \<open>--doc\<close> and no README, it ends in \<open>FileNotFoundError\<close>.
\<close>

theorem cmd_set_missing_file_raises:
  "cmd_set [] ''USB_UAS'' ''m'' (Some ''usb'') None None None False = ([], Inl FileNotFoundError)
   \<and> cmd_set [] ''USB_UAS'' ''m'' None (Some ''USB Support'') (Some ''module'') (Some ''UAS'') False
       = ([], Inl FileNotFoundError)"
  by code_simp

lemma cmd_remove_missing_files:
  "cmd_remove [] ''USB_UAS'' True True True
     = ([], Inr \<lparr>exit_code = 0, changes = [], warnings = [], written = []\<rparr>)"
  by code_simp

subsection \<open>Classification in the review\<close>

text \<open>
  Claim C9, as stated: the added option \<open>CONFIG_DRM_PANTHOR=y\<close> is listed under \<open>Sky1\<close>.
  It is not: its category is not \<open>Sky1\<close>, and the report lists it under \<open>Display/GPU\<close>.
\<close>

theorem drm_panthor_not_in_sky1_bucket:
  "categorize_option ''CONFIG_DRM_PANTHOR'' \<noteq> ''Sky1''
   \<and> new_options_report [(''CONFIG_DRM_PANTHOR'', ''y'')]
       = [''--- NEW options (1) ---'', ''\<newline>  [Display/GPU]'', ''    CONFIG_DRM_PANTHOR=y'', []]"
  by code_simp

text \<open>
  Claim C9, amended. The buckets of the NEW section are keyed by \<open>categorize_option\<close>
  alone, the category of the first prefix of the table that the bare name starts with:
  every option \<open>CONFIG_DRM_...\<close> is \<open>Display/GPU\<close>, whatever else its name holds. The
  marker test \<open>is_sky1_option\<close> holds of \<open>CONFIG_DRM_PANTHOR\<close> and plays no part in the
  bucketing: the review lists the option under \<open>Display/GPU\<close>, the second slot.
\<close>

theorem drm_panthor_in_display_bucket:
  "categorize_option (''CONFIG_DRM_'' @ rest) = ''Display/GPU''
   \<and> is_sky1_option ''CONFIG_DRM_PANTHOR''
   \<and> cmd_review fs_review (Elsewhere ''old.config'') (Elsewhere ''new.config'')
       = Inr (0, Some \<lparr>added = [(''CONFIG_DRM_PANTHOR'', ''y'')], removed = [], changed = [],
                        new_report = [''--- NEW options (1) ---'', ''\<newline>  [Display/GPU]'',
                                      ''    CONFIG_DRM_PANTHOR=y'', []]\<rparr>)"
proof -
  have "categorize_option (''CONFIG_DRM_'' @ rest) = ''Display/GPU''"
    by (simp add: categorize_option_def removeprefix_def SUBSYSTEM_PREFIXES_def)
  moreover have "is_sky1_option ''CONFIG_DRM_PANTHOR''"
    by code_simp
  moreover have "cmd_review fs_review (Elsewhere ''old.config'') (Elsewhere ''new.config'')
       = Inr (0, Some \<lparr>added = [(''CONFIG_DRM_PANTHOR'', ''y'')], removed = [], changed = [],
                        new_report = [''--- NEW options (1) ---'', ''\<newline>  [Display/GPU]'',
                                      ''    CONFIG_DRM_PANTHOR=y'', []]\<rparr>)"
    by code_simp
  ultimately show ?thesis by blast
qed

subsection \<open>Loading the tracks\<close>

lemma split_ws_nonempty: "\<not> is_space c \<Longrightarrow> split_ws (c # cs) \<noteq> []"
  by (cases cs) (auto split: list.splits)

lemma split_ws_comment:
  assumes "prefix ''# CONFIG_'' line"
  shows "\<exists>w0 key ws. split_ws line = w0 # key # ws"
proof -
  from assms obtain r where line: "line = ''# CONFIG_'' @ r"
    by (auto simp: prefix_def)
  have "split_ws (CHR ''C'' # ''ONFIG_'' @ r) \<noteq> []"
    by (rule split_ws_nonempty) (simp add: is_space_def)
  then obtain key ws where "split_ws (CHR ''C'' # ''ONFIG_'' @ r) = key # ws"
    by (cases "split_ws (CHR ''C'' # ''ONFIG_'' @ r)") auto
  then have "split_ws line = ''#'' # key # ws"
    unfolding line by (simp add: is_space_def)
  then show ?thesis by blast
qed

text \<open>\<open>line.split()[1]\<close> never raises in \<open>parse_config\<close>: the line has two words at least.\<close>

lemma parse_config_lines_total: "\<exists>d. parse_config_lines ls opts = Inr d"
proof (induction ls arbitrary: opts)
  case Nil
  then show ?case by simp
next
  case (Cons line ls)
  show ?case
  proof (cases "prefix ''CONFIG_'' line")
    case True
    then show ?thesis using Cons.IH by simp
  next
    case False
    show ?thesis
    proof (cases "prefix ''# CONFIG_'' line \<and> suffix '' is not set'' line")
      case True
      then obtain w0 key ws where "split_ws line = w0 # key # ws"
        using split_ws_comment by blast
      then show ?thesis using False True Cons.IH by simp
    next
      case False2: False
      then show ?thesis using False Cons.IH by auto
    qed
  qed
qed

lemma parse_config_total: "exists fs p \<Longrightarrow> \<exists>d. parse_config fs p = Inr d"
  using parse_config_lines_total
  by (auto simp: parse_config_def read_text_def exists_def split: option.splits)

lemma length_update_le: "length (AList.update k v al) \<le> Suc (length al)"
  by (induction al) auto

lemma load_configs_total:
  "\<exists>cs. load_configs fs tracks acc = Inr cs
        \<and> length cs \<le> length acc + length (filter (\<lambda>t. exists fs (ConfigDir (snd t))) tracks)"
proof (induction tracks arbitrary: acc)
  case Nil
  then show ?case by simp
next
  case (Cons t tracks)
  obtain label filename where t: "t = (label, filename)" by (cases t)
  show ?case
  proof (cases "exists fs (ConfigDir filename)")
    case True
    then obtain cfg where cfg: "parse_config fs (ConfigDir filename) = Inr cfg"
      using parse_config_total by blast
    from Cons.IH[of "AList.update label cfg acc"]
    obtain cs where "load_configs fs tracks (AList.update label cfg acc) = Inr cs"
      and "length cs \<le> length (AList.update label cfg acc)
             + length (filter (\<lambda>t. exists fs (ConfigDir (snd t))) tracks)"
      by blast
    then show ?thesis
      using True cfg t length_update_le[of label cfg acc] by auto
  next
    case False
    then show ?thesis using Cons.IH[of acc] t by auto
  qed
qed

lemma existing_tracks:
  "length (filter (\<lambda>t. exists fs (ConfigDir (snd t))) TRACKS)
     = length (filter (exists fs) TRACK_CONFIGS)"
  by (simp add: TRACKS_def TRACK_CONFIGS_def)

text \<open>
  Claim C10. With fewer than two of the four track files on disk, \<open>cmd_reconcile\<close> returns
  status 0 at once: the file system is as before, no violation is computed, nothing is
  fixed, whatever the policy reader \<open>cp\<close> would have returned (it is not asked), and also
  in fix mode.
\<close>

theorem reconcile_fewer_than_two_tracks:
  assumes "length (filter (exists fs) TRACK_CONFIGS) < 2"
  shows "\<exists>labels. cmd_reconcile cp fs fix verbose
           = (fs, Inr \<lparr>status = 0, violations = [], fixed = 0, divergent = [], div_count = 0,
                       sky1_total = 0, loaded = labels\<rparr>)"
proof -
  obtain cs where cs: "load_configs fs TRACKS [] = Inr cs"
    and len: "length cs \<le> length ([] :: configs)
                + length (filter (\<lambda>t. exists fs (ConfigDir (snd t))) TRACKS)"
    using load_configs_total[of fs TRACKS "[]"] by blast
  from len assms have "length cs < 2"
    by (simp add: existing_tracks)
  then show ?thesis
    by (simp add: cmd_reconcile_def cs)
qed

theorem reconcile_fewer_than_two_tracks_witness:
  "length (filter (exists fs_one_track) TRACK_CONFIGS) < 2
   \<and> (\<exists>labels. cmd_reconcile cp_scenario fs_one_track True False
           = (fs_one_track,
              Inr \<lparr>status = 0, violations = [], fixed = 0, divergent = [], div_count = 0,
                   sky1_total = 0, loaded = labels\<rparr>))"
proof -
  have h: "length (filter (exists fs_one_track) TRACK_CONFIGS) < 2"
    by code_simp
  show ?thesis
    using h reconcile_fewer_than_two_tracks[OF h, of cp_scenario True False] by simp
qed

subsection \<open>The exit status of \<open>cmd_reconcile\<close>\<close>

text \<open>
  Claim C4, as stated: a run in fix mode that leaves a MISSING violation unresolved exits
  with a status other than zero. It does not: in the scenario fix mode repairs the track
  RC, the track LTS still lacks the option afterwards, and the status is 0.
\<close>

theorem reconcile_fix_exits_zero_with_missing_left:
  "cmd_reconcile cp_scenario fs_scenario True False
     = (fs_scenario_fixed,
        Inr \<lparr>status = 0,
             violations =
               [''  config.sky1               CONFIG_NET_FOO  MISSING  (policy: y)'',
                ''  config.sky1-rc            CONFIG_NET_FOO=n  (policy: y)''],
             fixed = 1, divergent = [], div_count = 0, sky1_total = 0,
             loaded = [''LTS'', ''RC'']\<rparr>)
   \<and> get_config_value fs_scenario_fixed (ConfigDir ''config.sky1'') ''NET_FOO'' = Inr None"
  by code_simp

text \<open>
  Claim C4, amended. The status of a run that returns is 1 exactly when the policy check
  recorded a violation and fix mode is off; in fix mode it is 0, whether or not the
  violations were repaired.
\<close>

theorem reconcile_exit_status:
  assumes "snd (cmd_reconcile cp fs fix verbose) = Inr r"
  shows "status r = (if violations r \<noteq> [] \<and> \<not> fix then 1 else 0)"
  using assms
  by (auto simp: cmd_reconcile_def Let_def split: sum.splits prod.splits if_splits)

theorem reconcile_exit_status_witness:
  "snd (cmd_reconcile cp_scenario fs_scenario False False)
     = Inr \<lparr>status = 1,
            violations =
              [''  config.sky1               CONFIG_NET_FOO  MISSING  (policy: y)'',
               ''  config.sky1-rc            CONFIG_NET_FOO=n  (policy: y)''],
            fixed = 0, divergent = [], div_count = 0, sky1_total = 0,
            loaded = [''LTS'', ''RC'']\<rparr>
   \<and> status \<lparr>status = 1,
            violations =
              [''  config.sky1               CONFIG_NET_FOO  MISSING  (policy: y)'',
               ''  config.sky1-rc            CONFIG_NET_FOO=n  (policy: y)''],
            fixed = 0, divergent = [], div_count = 0, sky1_total = 0,
            loaded = [''LTS'', ''RC'']\<rparr> = 1"
proof -
  have h: "snd (cmd_reconcile cp_scenario fs_scenario False False)
     = Inr \<lparr>status = 1,
            violations =
              [''  config.sky1               CONFIG_NET_FOO  MISSING  (policy: y)'',
               ''  config.sky1-rc            CONFIG_NET_FOO=n  (policy: y)''],
            fixed = 0, divergent = [], div_count = 0, sky1_total = 0,
            loaded = [''LTS'', ''RC'']\<rparr>"
    by code_simp
  show ?thesis
    using h reconcile_exit_status[OF h] by simp
qed

subsection \<open>Fix mode\<close>

lemma replace_absent:
  "old \<noteq> [] \<Longrightarrow> \<not> sublist old s \<Longrightarrow> replace old new s = s"
proof (induction s)
  case Nil
  then show ?case by (subst replace.simps) simp
next
  case (Cons c s)
  from Cons.prems have np: "\<not> prefix old (c # s)" and ns: "\<not> sublist old s"
    by (auto simp: sublist_Cons_right)
  show ?case
    using Cons.IH[OF Cons.prems(1) ns] np Cons.prems(1)
    by (subst replace.simps) simp
qed
















subsection \<open>Lines, joins and searches\<close>

lemma join_Cons: "xs \<noteq> [] \<Longrightarrow> join sep (x # xs) = x @ sep @ join sep xs"
  by (cases xs) simp_all

lemma split_nl_nonempty: "split_nl t \<noteq> []"
  by (induction t) (auto split: list.splits)


lemma split_nl_no_NL: "l \<in> set (split_nl t) \<Longrightarrow> NL \<notin> set l"
proof (induction t arbitrary: l)
  case Nil
  then show ?case by simp
next
  case (Cons c cs)
  obtain x xs where s: "split_nl cs = x # xs"
    using split_nl_nonempty[of cs] by (cases "split_nl cs") auto
  have "NL \<notin> set x" and "\<And>y. y \<in> set xs \<Longrightarrow> NL \<notin> set y"
    using Cons.IH s by auto
  then show ?case using Cons.prems s by (auto split: if_splits)
qed

lemma split_nl_plain: "NL \<notin> set l \<Longrightarrow> split_nl l = [l]"
  by (induction l) auto

lemma split_nl_append: "NL \<notin> set l \<Longrightarrow> split_nl (l @ NL # rest) = l # split_nl rest"
  by (induction l) auto

lemma split_nl_join:
  "ls \<noteq> [] \<Longrightarrow> (\<And>l. l \<in> set ls \<Longrightarrow> NL \<notin> set l) \<Longrightarrow> split_nl (join [NL] ls) = ls"
proof (induction ls)
  case Nil
  then show ?case by simp
next
  case (Cons x xs)
  show ?case
  proof (cases xs)
    case Nil
    then show ?thesis using Cons.prems by (simp add: split_nl_plain)
  next
    case (Cons y ys)
    then have "split_nl (join [NL] xs) = xs" using Cons.IH Cons.prems by simp
    then show ?thesis using Cons Cons.prems(2)[of x] by (simp add: split_nl_append)
  qed
qed

lemma splitlines_nonempty: "t \<noteq> [] \<Longrightarrow> splitlines t \<noteq> []"
  by (induction t rule: splitlines.induct) (auto split: list.splits)

lemma splitlines_no_linebreak: "l \<in> set (splitlines t) \<Longrightarrow> \<not> list_ex is_linebreak l"
proof (induction t arbitrary: l rule: splitlines.induct)
  case 1
  then show ?case by simp
next
  case (2 c)
  then show ?case by (auto split: if_splits)
next
  case (3 c d ds)
  show ?case
  proof (cases "c = CR \<and> d = NL")
    case True
    then show ?thesis using 3 by auto
  next
    case nocrlf: False
    show ?thesis
    proof (cases "is_linebreak c")
      case True
      then show ?thesis using 3 nocrlf by auto
    next
      case False
      obtain x xs where s: "splitlines (d # ds) = x # xs"
        using splitlines_nonempty[of "d # ds"] by (cases "splitlines (d # ds)") auto
      have ih: "\<And>y. y \<in> set (x # xs) \<Longrightarrow> \<not> list_ex is_linebreak y"
        using "3.IH"(3)[OF nocrlf False] s by simp
      from "3.prems" nocrlf False s have "l = c # x \<or> l \<in> set xs" by auto
      then show ?thesis using ih False by auto
    qed
  qed
qed

lemma splitlines_append:
  "\<not> list_ex is_linebreak l \<Longrightarrow> splitlines (l @ NL # rest) = l # splitlines rest"
proof (induction l)
  case Nil
  show ?case by (cases rest) (simp_all add: is_linebreak_def NL_def CR_def)
next
  case (Cons c l)
  then have c: "\<not> is_linebreak c" and l: "\<not> list_ex is_linebreak l" by simp_all
  have ncr: "c \<noteq> CR" using c by (auto simp: is_linebreak_def CR_def)
  obtain d ds where tl: "l @ NL # rest = d # ds" by (cases "l @ NL # rest") auto
  show ?case using Cons.IH[OF l] c ncr tl by simp
qed

lemma splitlines_join:
  "ls \<noteq> [] \<Longrightarrow> (\<And>l. l \<in> set ls \<Longrightarrow> \<not> list_ex is_linebreak l)
     \<Longrightarrow> splitlines (join [NL] ls @ [NL]) = ls"
proof (induction ls)
  case Nil
  then show ?case by simp
next
  case (Cons x xs)
  have x: "\<not> list_ex is_linebreak x" using Cons.prems(2)[of x] by simp
  show ?case
  proof (cases xs)
    case Nil
    then show ?thesis using splitlines_append[OF x, of "[]"] by simp
  next
    case (Cons y ys)
    then have "splitlines (join [NL] xs @ [NL]) = xs" using Cons.IH Cons.prems by simp
    then show ?thesis
      using Cons splitlines_append[OF x, of "join [NL] xs @ [NL]"] by simp
  qed
qed

lemma sublist_join: "x \<in> set ls \<Longrightarrow> sublist x (join sep ls)"
proof (induction ls)
  case Nil
  then show ?case by simp
next
  case (Cons y ys)
  show ?case
  proof (cases ys)
    case Nil
    then show ?thesis using Cons.prems by simp
  next
    case (Cons z zs)
    have j: "join sep (y # ys) = y @ sep @ join sep ys" using Cons by simp
    show ?thesis
    proof (cases "x = y")
      case True
      then show ?thesis unfolding j by (simp add: sublist_append)
    next
      case False
      then have "sublist x (join sep ys)" using Cons.IH Cons.prems by simp
      then show ?thesis unfolding j by (simp add: sublist_append)
    qed
  qed
qed

lemma splitlines_prefix_sublist:
  "(\<forall>l ls. splitlines t = l # ls \<longrightarrow> prefix l t) \<and> (\<forall>l \<in> set (splitlines t). sublist l t)"
proof (induction t rule: splitlines.induct)
  case 1
  then show ?case by simp
next
  case (2 c)
  then show ?case by auto
next
  case (3 c d ds)
  show ?case
  proof (cases "c = CR \<and> d = NL")
    case True
    have "\<And>y. y \<in> set (splitlines ds) \<Longrightarrow> sublist y (c # d # ds)"
      using "3.IH"(1)[OF True] by (simp add: sublist_Cons_right)
    then show ?thesis using True by auto
  next
    case nocrlf: False
    show ?thesis
    proof (cases "is_linebreak c")
      case True
      have "\<And>y. y \<in> set (splitlines (d # ds)) \<Longrightarrow> sublist y (c # d # ds)"
        using "3.IH"(2)[OF nocrlf True] by (simp add: sublist_Cons_right)
      then show ?thesis using True nocrlf by auto
    next
      case False
      obtain x xs where s: "splitlines (d # ds) = x # xs"
        using splitlines_nonempty[of "d # ds"] by (cases "splitlines (d # ds)") auto
      have px: "prefix x (d # ds)" and sub: "\<And>y. y \<in> set xs \<Longrightarrow> sublist y (d # ds)"
        using "3.IH"(3)[OF nocrlf False] s by auto
      have "prefix (c # x) (c # d # ds)" using px by simp
      moreover have "sublist (c # x) (c # d # ds)" using px by (simp add: sublist_Cons_right)
      moreover have "\<And>y. y \<in> set xs \<Longrightarrow> sublist y (c # d # ds)"
        using sub by (simp add: sublist_Cons_right)
      ultimately show ?thesis using nocrlf False s by auto
    qed
  qed
qed

lemma splitlines_sublist: "l \<in> set (splitlines t) \<Longrightarrow> sublist l t"
  using splitlines_prefix_sublist by blast

lemma first_index_None: "first_index P xs = None \<longleftrightarrow> \<not> list_ex P xs"
  by (induction xs) auto

lemma first_index_Some:
  "first_index P xs = Some i \<Longrightarrow> i < length xs \<and> P (xs ! i) \<and> \<not> list_ex P (take i xs)"
proof (induction xs arbitrary: i)
  case Nil
  then show ?case by simp
next
  case (Cons x xs)
  then show ?case by (cases i) (auto split: if_splits)
qed

lemma first_index_append:
  "\<not> list_ex P xs \<Longrightarrow> P e \<Longrightarrow> first_index P (xs @ e # ys) = Some (length xs)"
  by (induction xs) auto

lemma first_index_update:
  assumes "first_index P xs = Some i" "P e"
  shows "first_index P (xs[i := e]) = Some i"
proof -
  from first_index_Some[OF assms(1)]
  have i: "i < length xs" and no: "\<not> list_ex P (take i xs)" by simp_all
  have "xs[i := e] = take i xs @ e # drop (Suc i) xs"
    using i by (simp add: upd_conv_take_nth_drop)
  moreover have "length (take i xs) = i" using i by simp
  ultimately show ?thesis
    using first_index_append[OF no assms(2), of "drop (Suc i) xs"] by simp
qed

lemma first_index_insert:
  assumes "\<not> list_ex P xs" "P e"
  shows "\<exists>j. first_index P (insert_at k e xs) = Some j \<and> insert_at k e xs ! j = e"
proof -
  have "\<not> list_ex P (take k xs)"
    using assms(1) by (auto simp: list_ex_iff dest: in_set_takeD)
  then have "first_index P (insert_at k e xs) = Some (length (take k xs))"
    unfolding insert_at_def using first_index_append[of P "take k xs" e "drop k xs"] assms(2) by simp
  moreover have "insert_at k e xs ! length (take k xs) = e"
    unfolding insert_at_def by (simp add: nth_append)
  ultimately show ?thesis by blast
qed

lemma dropWhile_hd_id: "s \<noteq> [] \<Longrightarrow> \<not> P (hd s) \<Longrightarrow> dropWhile P s = s"
  by (cases s) auto

lemma strip_id: "s \<noteq> [] \<Longrightarrow> \<not> is_space (hd s) \<Longrightarrow> \<not> is_space (last s) \<Longrightarrow> strip s = s"
proof -
  assume a: "s \<noteq> []" "\<not> is_space (hd s)" "\<not> is_space (last s)"
  have 1: "dropWhile is_space s = s" using a by (simp add: dropWhile_hd_id)
  have "rev s \<noteq> []" "\<not> is_space (hd (rev s))" using a by (simp_all add: hd_rev)
  then have 2: "dropWhile is_space (rev s) = rev s" by (rule dropWhile_hd_id)
  show ?thesis by (simp add: strip_def 1 2)
qed

lemma strip_no_space: "\<not> list_ex is_space s \<Longrightarrow> strip s = s"
proof (cases s)
  case Nil
  then show ?thesis by (simp add: strip_def)
next
  case (Cons c cs)
  assume "\<not> list_ex is_space s"
  then have "\<not> is_space (hd s)" "\<not> is_space (last s)"
    using Cons by (auto simp: list_ex_iff)
  then show ?thesis using strip_id[of s] Cons by simp
qed

lemma strip_hd: "\<not> is_space c \<Longrightarrow> \<exists>r. strip (c # s) = c # r"
proof -
  assume c: "\<not> is_space c"
  have "dropWhile is_space (rev s @ [c]) = dropWhile is_space (rev s) @ [c]
        \<or> dropWhile is_space (rev s @ [c]) = [c]"
    using c by (simp add: dropWhile_append)
  then obtain q where "dropWhile is_space (rev s @ [c]) = q @ [c]"
    by (metis append_Nil)
  then show ?thesis using c by (simp add: strip_def)
qed

subsection \<open>The regular expressions on a key without line feed\<close>

lemma hd_split_nl: "hd (split_nl s) = takeWhile (\<lambda>c. c \<noteq> NL) s"
  using split_nl_nonempty by (induction s) (auto split: list.splits)

lemma split_nl_unfold:
  "split_nl s = takeWhile (\<lambda>c. c \<noteq> NL) s #
     (case dropWhile (\<lambda>c. c \<noteq> NL) s of [] \<Rightarrow> [] | c # t \<Rightarrow> split_nl t)"
  by (induction s) (auto split: list.splits)

lemma match_here_line:
  assumes "NL \<notin> set (literal p)"
  shows "match_here p s =
           (if line_matches p (takeWhile (\<lambda>c. c \<noteq> NL) s)
            then Some (takeWhile (\<lambda>c. c \<noteq> NL) s, dropWhile (\<lambda>c. c \<noteq> NL) s)
            else None)"
proof (cases p)
  case (Line_from lit)
  have nl: "\<forall>c \<in> set lit. c \<noteq> NL" using assms Line_from by auto
  show ?thesis
  proof (cases "prefix lit s")
    case True
    then obtain r where s: "s = lit @ r" by (auto simp: prefix_def)
    show ?thesis using nl unfolding s Line_from
      by (simp add: line_matches_def takeWhile_append2 dropWhile_append2)
  next
    case False
    have "\<not> prefix lit (takeWhile (\<lambda>c. c \<noteq> NL) s)"
      using False prefix_order.trans[OF _ takeWhile_is_prefix] by blast
    then show ?thesis using False unfolding Line_from by (simp add: line_matches_def)
  qed
next
  case (Line_is lit)
  have nl: "\<forall>c \<in> set lit. c \<noteq> NL" using assms Line_is by auto
  show ?thesis
  proof (cases "prefix lit s")
    case True
    then obtain r where s: "s = lit @ r" by (auto simp: prefix_def)
    have tw: "takeWhile (\<lambda>c. c \<noteq> NL) lit = lit" and dw: "dropWhile (\<lambda>c. c \<noteq> NL) lit = []"
      using nl by (auto simp: takeWhile_eq_all_conv)
    show ?thesis using nl unfolding s Line_is
      by (cases r) (auto simp: tw dw line_matches_def takeWhile_append2 dropWhile_append2)
  next
    case False
    have "takeWhile (\<lambda>c. c \<noteq> NL) s \<noteq> lit"
      using False takeWhile_is_prefix[of "\<lambda>c. c \<noteq> NL" s] by auto
    then show ?thesis using False unfolding Line_is by (simp add: line_matches_def)
  qed
qed


lemma join_Cons_Cons: "join sep ((c # l) # xs) = c # join sep (l # xs)"
  by (cases xs) simp_all

lemma search_from_segments:
  assumes "NL \<notin> set (literal p)"
  shows "search_from p bol s =
           (case split_nl s of
              [] \<Rightarrow> False
            | l # ls \<Rightarrow> (bol \<and> line_matches p l) \<or> list_ex (line_matches p) ls)"
proof (induction s arbitrary: bol)
  case Nil
  show ?case using match_here_line[OF assms, of "[]"] by simp
next
  case (Cons c cs)
  obtain l ls where sp: "split_nl cs = l # ls"
    using split_nl_nonempty[of cs] by (cases "split_nl cs") auto
  have l: "takeWhile (\<lambda>c. c \<noteq> NL) cs = l" using hd_split_nl[of cs] sp by simp
  show ?case
  proof (cases "c = NL")
    case True
    then show ?thesis
      using Cons.IH[of True] sp match_here_line[OF assms, of "c # cs"] by simp
  next
    case False
    then show ?thesis
      using Cons.IH[of False] sp l match_here_line[OF assms, of "c # cs"] by simp
  qed
qed

lemma sub_from_segments:
  assumes nl: "NL \<notin> set (literal p)" and ne: "literal p \<noteq> []"
  shows "sub_from p ps bol s =
           join [NL] (case split_nl s of
                        [] \<Rightarrow> []
                      | l # ls \<Rightarrow> (if bol \<and> line_matches p l then expand ps l else l)
                                  # map (\<lambda>l. if line_matches p l then expand ps l else l) ls)"
proof (induction "length s" arbitrary: s bol rule: less_induct)
  case less
  let ?f = "\<lambda>l. if line_matches p l then expand ps l else l"
  define l0 where "l0 = takeWhile (\<lambda>c. c \<noteq> NL) s"
  define d where "d = dropWhile (\<lambda>c. c \<noteq> NL) s"
  have spl: "split_nl s = l0 # (case d of [] \<Rightarrow> [] | c # t \<Rightarrow> split_nl t)"
    unfolding l0_def d_def by (rule split_nl_unfold)
  have mh: "match_here p s = (if line_matches p l0 then Some (l0, d) else None)"
    unfolding l0_def d_def by (rule match_here_line[OF nl])
  have sd: "s = l0 @ d" unfolding l0_def d_def by simp
  have l0_nl: "NL \<notin> set l0" unfolding l0_def using set_takeWhileD by fastforce
  have d_hd: "d = [] \<or> (\<exists>t. d = NL # t)"
    unfolding d_def using hd_dropWhile[of "\<lambda>c. c \<noteq> NL" s]
    by (cases "dropWhile (\<lambda>c. c \<noteq> NL) s") auto
  have no_empty: "\<not> line_matches p []" using ne by (cases p) (auto simp: line_matches_def)
  show ?case
  proof (cases "bol \<and> line_matches p l0")
    case True
    then have l0: "l0 \<noteq> []" using no_empty by auto
    then have "last l0 \<in> set l0" by (rule last_in_set)
    then have last: "last l0 \<noteq> NL" using l0_nl by metis
    have len: "length d < length s" using l0 sd by (cases l0) auto
    have step: "sub_from p ps bol s = expand ps l0 @ sub_from p ps False d"
      using True ne last mh by (subst sub_from.simps) simp
    have ih: "sub_from p ps False d =
                join [NL] (case split_nl d of [] \<Rightarrow> [] | l # ls \<Rightarrow> l # map ?f ls)"
      using less[OF len, of False] by (simp cong: list.case_cong)
    from d_hd show ?thesis
    proof
      assume "d = []"
      then show ?thesis using step ih True spl by simp
    next
      assume "\<exists>t. d = NL # t"
      then obtain t where "d = NL # t" ..
      then show ?thesis
        using step ih True spl split_nl_nonempty[of t] by (simp add: join_Cons)
    qed
  next
    case False
    then have none: "(if bol \<and> literal p \<noteq> [] then match_here p s else None) = None"
      using mh by auto
    show ?thesis
    proof (cases s)
      case Nil
      then show ?thesis using none no_empty by (subst sub_from.simps) simp
    next
      case (Cons c cs)
      have step: "sub_from p ps bol s = c # sub_from p ps (c = NL) cs"
        using none Cons by (subst sub_from.simps) simp
      obtain l ls where sp: "split_nl cs = l # ls"
        using split_nl_nonempty[of cs] by (cases "split_nl cs") auto
      have l: "takeWhile (\<lambda>c. c \<noteq> NL) cs = l" using hd_split_nl[of cs] sp by simp
      have ih: "sub_from p ps (c = NL) cs =
                  join [NL] ((if c = NL \<and> line_matches p l then expand ps l else l) # map ?f ls)"
        using less[of cs "c = NL"] Cons sp by simp
      show ?thesis
      proof (cases "c = NL")
        case True
        then show ?thesis using step ih Cons sp no_empty by (simp add: join_Cons)
      next
        case c: False
        then have "l0 = c # l" using l Cons unfolding l0_def by simp
        then show ?thesis using c step ih Cons sp False by (auto simp: join_Cons_Cons)
      qed
    qed
  qed
qed

lemma search_segments:
  "NL \<notin> set (literal p) \<Longrightarrow> search_from p True s = list_ex (line_matches p) (split_nl s)"
  using search_from_segments[of p True s] split_nl_nonempty[of s]
  by (cases "split_nl s") auto

lemma sub_segments:
  "NL \<notin> set (literal p) \<Longrightarrow> literal p \<noteq> [] \<Longrightarrow>
   sub_from p ps True s =
     join [NL] (map (\<lambda>l. if line_matches p l then expand ps l else l) (split_nl s))"
  using sub_from_segments[of p ps True s] split_nl_nonempty[of s]
  by (cases "split_nl s") auto

lemma re_search_segments:
  "NL \<notin> set (literal p) \<Longrightarrow> re_search p text = seg_search (line_matches p) text"
  by (simp add: re_search_def seg_search_def search_segments)

lemma re_sub_segments:
  "NL \<notin> set (literal p) \<Longrightarrow> literal p \<noteq> [] \<Longrightarrow>
   re_sub p repl text = seg_sub (line_matches p) repl text"
  by (simp add: re_sub_def seg_sub_def sub_segments cong: sum.case_cong)

lemma line_matches_enabled: "line_matches (pattern_enabled key) = enabled_line key"
  by (rule ext) (simp add: line_matches_def pattern_enabled_def enabled_line_def)

lemma line_matches_disabled: "line_matches (pattern_disabled key) = disabled_line key"
  by (rule ext) (simp add: line_matches_def pattern_disabled_def disabled_line_def)

lemma set_config_line_by_segments:
  assumes "NL \<notin> set option"
  shows "set_config_line text option value = set_config_line_segs text option value"
proof -
  define key where "key = ''CONFIG_'' @ option"
  have nl: "NL \<notin> set key" using assms by (simp add: key_def NL_def)
  have e: "NL \<notin> set (literal (pattern_enabled key))" "literal (pattern_enabled key) \<noteq> []"
    using nl by (simp_all add: pattern_enabled_def NL_def)
  have d: "NL \<notin> set (literal (pattern_disabled key))" "literal (pattern_disabled key) \<noteq> []"
    using nl by (simp_all add: pattern_disabled_def NL_def)
  show ?thesis
    unfolding set_config_line_def set_config_line_segs_def Let_def key_def[symmetric]
    by (simp only: re_search_segments[OF e(1)] re_search_segments[OF d(1)]
          re_sub_segments[OF e] re_sub_segments[OF d] line_matches_enabled line_matches_disabled)
qed

text \<open>
  With a line feed in the option the first pattern matches over two lines, as the
  regular expression does.
\<close>

lemma set_config_line_key_with_line_feed:
  "set_config_line ''CONFIG_A\<newline>B=y\<newline>'' ''A\<newline>B'' ''m'' = Inr (''CONFIG_A\<newline>B=m\<newline>'', True)"
  by code_simp

subsection \<open>What the edits keep\<close>



lemma NL_linebreak: "is_linebreak NL"
  by (simp add: is_linebreak_def NL_def)






















subsection \<open>Setting twice\<close>

lemma template_plain: "BSL \<notin> set s \<Longrightarrow> template TNormal s = Inr (map Lit s)"
  by (induction s) (auto simp: emit_def)

lemma expand_lits: "expand (map Lit s) m = s"
  by (induction s) (auto simp: expand_def)

lemma seg_sub_plain:
  "BSL \<notin> set repl
     \<Longrightarrow> seg_sub P repl text = Inr (join [NL] (map (\<lambda>l. if P l then repl else l) (split_nl text)))"
  by (simp add: seg_sub_def parse_template_def template_plain expand_lits cong: if_cong)

lemma split_nl_sub:
  assumes "NL \<notin> set new"
  shows "split_nl (join [NL] (map (\<lambda>l. if P l then new else l) (split_nl t)))
           = map (\<lambda>l. if P l then new else l) (split_nl t)"
proof (rule split_nl_join)
  show "map (\<lambda>l. if P l then new else l) (split_nl t) \<noteq> []"
    using split_nl_nonempty by simp
  fix l assume "l \<in> set (map (\<lambda>l. if P l then new else l) (split_nl t))"
  then show "NL \<notin> set l"
    using assms split_nl_no_NL[of _ t] by (auto split: if_splits)
qed

lemma sub_idem:
  assumes "NL \<notin> set new"
    and fx: "\<And>l. l \<in> set (split_nl t) \<Longrightarrow> \<not> P l \<Longrightarrow> Q l \<Longrightarrow> l = new"
  shows "join [NL] (map (\<lambda>l. if Q l then new else l)
            (split_nl (join [NL] (map (\<lambda>l. if P l then new else l) (split_nl t)))))
         = join [NL] (map (\<lambda>l. if P l then new else l) (split_nl t))"
proof -
  have "map (\<lambda>l. if Q l then new else l) (map (\<lambda>l. if P l then new else l) (split_nl t))
          = map (\<lambda>l. if P l then new else l) (split_nl t)"
    unfolding map_map by (rule map_cong) (use fx in \<open>auto simp: comp_def\<close>)
  then show ?thesis by (simp only: split_nl_sub[OF assms(1)])
qed

lemma search_sub:
  assumes "NL \<notin> set new"
  shows "seg_search Q (join [NL] (map (\<lambda>l. if P l then new else l) (split_nl t)))
           = list_ex Q (map (\<lambda>l. if P l then new else l) (split_nl t))"
  by (simp only: seg_search_def split_nl_sub[OF assms])

lemma set_config_line_segs_plain:
  assumes "BSL \<notin> set option" "BSL \<notin> set value"
  shows "set_config_line_segs text option value =
     (let key = ''CONFIG_'' @ option;
          new_line = (if value = ''n'' then ''# '' @ key @ '' is not set'' else key @ ''='' @ value);
          run = (\<lambda>P. join [NL] (map (\<lambda>l. if P l then new_line else l) (split_nl text)))
      in if seg_search (enabled_line key) text
         then Inr (run (enabled_line key), run (enabled_line key) \<noteq> text)
         else if seg_search (disabled_line key) text
         then Inr (run (disabled_line key), run (disabled_line key) \<noteq> text)
         else Inr (text, False))"
proof -
  have "BSL \<notin> set (if value = ''n'' then ''# '' @ (''CONFIG_'' @ option) @ '' is not set''
                        else (''CONFIG_'' @ option) @ ''='' @ value)"
    using assms by (auto simp: BSL_def)
  then have r: "\<And>P. seg_sub P (if value = ''n'' then ''# '' @ (''CONFIG_'' @ option) @ '' is not set''
                        else (''CONFIG_'' @ option) @ ''='' @ value) text
      = Inr (join [NL] (map (\<lambda>l. if P l then (if value = ''n''
                 then ''# '' @ (''CONFIG_'' @ option) @ '' is not set''
                 else (''CONFIG_'' @ option) @ ''='' @ value) else l) (split_nl text)))"
    by (rule seg_sub_plain)
  show ?thesis
    by (simp only: set_config_line_segs_def Let_def r sum.case)
qed

lemma set_config_line_segs_twice:
  assumes bo: "BSL \<notin> set option" and bv: "BSL \<notin> set value"
    and no: "NL \<notin> set option" and nv: "NL \<notin> set value"
  shows "\<exists>t1 c1. set_config_line_segs text option value = Inr (t1, c1)
                  \<and> set_config_line_segs t1 option value = Inr (t1, False)"
proof -
  define key where "key = ''CONFIG_'' @ option"
  define new where
    "new = (if value = ''n'' then ''# '' @ key @ '' is not set'' else key @ ''='' @ value)"
  let ?E = "enabled_line key" and ?D = "disabled_line key"
  let ?run = "\<lambda>P t. join [NL] (map (\<lambda>l. if P l then new else l) (split_nl t))"
  have nl: "NL \<notin> set new"
    using no nv by (auto simp: new_def key_def NL_def)
  have plain: "set_config_line_segs t option value =
      (if seg_search ?E t then Inr (?run ?E t, ?run ?E t \<noteq> t)
       else if seg_search ?D t then Inr (?run ?D t, ?run ?D t \<noteq> t)
       else Inr (t, False))" for t
    unfolding key_def new_def
    using set_config_line_segs_plain[OF bo bv, of t] by (simp only: Let_def)
  have Dnew: "?D l \<Longrightarrow> value = ''n'' \<Longrightarrow> l = new" for l
    by (simp add: disabled_line_def new_def)
  have Enew: "value \<noteq> ''n'' \<Longrightarrow> ?E new"
    by (simp add: enabled_line_def new_def)
  have nEnew: "value = ''n'' \<Longrightarrow> \<not> ?E new"
    by (simp add: enabled_line_def new_def key_def)
  have Dn: "value = ''n'' \<Longrightarrow> ?D new"
    by (simp add: disabled_line_def new_def)
  have same: "set_config_line_segs text option value = Inr (text, False)
                \<Longrightarrow> ?thesis"
    by blast
  consider (en) "seg_search ?E text"
    | (dis) "\<not> seg_search ?E text" "seg_search ?D text"
    | (none) "\<not> seg_search ?E text" "\<not> seg_search ?D text"
    by blast
  then show ?thesis
  proof cases
    case none
    then show ?thesis by (intro same) (simp add: plain)
  next
    case en
    let ?t1 = "?run ?E text"
    have first: "set_config_line_segs text option value = Inr (?t1, ?t1 \<noteq> text)"
      using en by (simp add: plain)
    have ex: "\<exists>l \<in> set (split_nl text). ?E l"
      using en by (simp add: seg_search_def list_ex_iff)
    have second: "set_config_line_segs ?t1 option value = Inr (?t1, False)"
    proof (cases "value = ''n''")
      case False
      have s: "seg_search ?E ?t1"
        using ex Enew[OF False] by (auto simp: search_sub[OF nl] list_ex_iff)
      have "?run ?E ?t1 = ?t1"
        by (rule sub_idem[OF nl]) simp
      then show ?thesis using s by (simp add: plain[of ?t1])
    next
      case True
      have s1: "\<not> seg_search ?E ?t1"
        using nEnew[OF True] by (auto simp: search_sub[OF nl] list_ex_iff)
      have s2: "seg_search ?D ?t1"
        using ex Dn[OF True] by (auto simp: search_sub[OF nl] list_ex_iff)
      have "?run ?D ?t1 = ?t1"
        by (rule sub_idem[OF nl]) (use Dnew[OF _ True] in simp)
      then show ?thesis using s1 s2 by (simp add: plain[of ?t1])
    qed
    show ?thesis using first second by blast
  next
    case dis
    let ?t1 = "?run ?D text"
    have first: "set_config_line_segs text option value = Inr (?t1, ?t1 \<noteq> text)"
      using dis by (simp add: plain)
    have ex: "\<exists>l \<in> set (split_nl text). ?D l"
      using dis by (simp add: seg_search_def list_ex_iff)
    have noE: "\<And>l. l \<in> set (split_nl text) \<Longrightarrow> \<not> ?E l"
      using dis by (simp add: seg_search_def list_ex_iff)
    have second: "set_config_line_segs ?t1 option value = Inr (?t1, False)"
    proof (cases "value = ''n''")
      case False
      have s: "seg_search ?E ?t1"
        using ex Enew[OF False] by (auto simp: search_sub[OF nl] list_ex_iff)
      have "?run ?E ?t1 = ?t1"
        by (rule sub_idem[OF nl]) (use noE in simp)
      then show ?thesis using s by (simp add: plain[of ?t1])
    next
      case True
      have s1: "\<not> seg_search ?E ?t1"
        using nEnew[OF True] noE by (auto simp: search_sub[OF nl] list_ex_iff)
      have s2: "seg_search ?D ?t1"
        using ex Dn[OF True] by (auto simp: search_sub[OF nl] list_ex_iff)
      have "?run ?D ?t1 = ?t1"
        by (rule sub_idem[OF nl]) (use Dnew[OF _ True] in simp)
      then show ?thesis using s1 s2 by (simp add: plain[of ?t1])
    qed
    show ?thesis using first second by blast
  qed
qed

lemma ident_char_plain:
  assumes "is_ident_char c"
  shows "\<not> is_space c" "\<not> is_linebreak c" "c \<noteq> CHR ''=''" "c \<noteq> CHR ''#''" "c \<noteq> CHR ''[''"
    "c \<noteq> BSL" "c \<noteq> NL"
  using assms
  by (auto simp: is_ident_char_def is_ascii_letter_def is_digit_def is_space_def is_linebreak_def
        BSL_def NL_def)

lemma of_char_upper_char:
  assumes "CHR ''a'' \<le> c" "c \<le> CHR ''z''"
  shows "(of_char (upper_char c) :: nat) = of_char c - 32"
proof -
  have "(97::nat) \<le> of_char c" "(of_char c :: nat) \<le> 122"
    using assms by (simp_all add: less_eq_char_def)
  then have "(of_char c - 32 :: nat) mod 256 = of_char c - 32" by simp
  then show ?thesis using assms by (simp add: upper_char_def)
qed

lemma upper_char_upper:
  assumes "CHR ''a'' \<le> c" "c \<le> CHR ''z''"
  shows "CHR ''A'' \<le> upper_char c" "upper_char c \<le> CHR ''Z''"
proof -
  have "(97::nat) \<le> of_char c" "(of_char c :: nat) \<le> 122"
    using assms by (simp_all add: less_eq_char_def)
  then show "CHR ''A'' \<le> upper_char c" "upper_char c \<le> CHR ''Z''"
    using of_char_upper_char[OF assms] by (simp_all add: less_eq_char_def)
qed

lemma upper_char_ident: "is_ident_char c \<Longrightarrow> is_ident_char (upper_char c)"
proof (cases "CHR ''a'' \<le> c \<and> c \<le> CHR ''z''")
  case True
  then show ?thesis using upper_char_upper[of c]
    by (simp add: is_ident_char_def is_ascii_letter_def)
next
  case False
  then have "upper_char c = c" by (auto simp: upper_char_def)
  moreover assume "is_ident_char c"
  ultimately show ?thesis by simp
qed

lemma upper_char_idem: "upper_char (upper_char c) = upper_char c"
proof (cases "CHR ''a'' \<le> c \<and> c \<le> CHR ''z''")
  case True
  then have "upper_char c \<le> CHR ''Z''" using upper_char_upper[of c] by simp
  then have "\<not> CHR ''a'' \<le> upper_char c" by (simp add: less_eq_char_def)
  then have n: "(CHR ''a'' \<le> upper_char c \<and> upper_char c \<le> CHR ''z'') = False" by simp
  show ?thesis by (subst upper_char_def) (simp only: n if_False)
next
  case False
  then have "upper_char c = c" by (auto simp: upper_char_def)
  then show ?thesis by simp
qed

lemma upper_idem: "upper (upper s) = upper s"
  by (simp add: upper_def upper_char_idem)

lemma option_name_upper: "option_name s \<Longrightarrow> option_name (upper s)"
  by (simp add: option_name_def upper_def list_all_iff upper_char_ident)

lemma option_name_plain:
  assumes "option_name s"
  shows "\<not> list_ex is_space s" "\<not> list_ex is_linebreak s" "CHR ''='' \<notin> set s"
    "BSL \<notin> set s" "NL \<notin> set s"
    "s \<noteq> [] \<Longrightarrow> hd s \<noteq> CHR ''#'' \<and> hd s \<noteq> CHR ''['' \<and> \<not> is_space (hd s)"
proof -
  have all: "\<And>c. c \<in> set s \<Longrightarrow> is_ident_char c"
    using assms by (simp add: option_name_def list_all_iff)
  show "\<not> list_ex is_space s" using all ident_char_plain(1) by (auto simp: list_ex_iff)
  show "\<not> list_ex is_linebreak s" using all ident_char_plain(2) by (auto simp: list_ex_iff)
  show "CHR ''='' \<notin> set s" using all ident_char_plain(3) by blast
  show "BSL \<notin> set s" using all ident_char_plain(6) by blast
  show "NL \<notin> set s" using all ident_char_plain(7) by blast
  show "hd s \<noteq> CHR ''#'' \<and> hd s \<noteq> CHR ''['' \<and> \<not> is_space (hd s)" if "s \<noteq> []"
  proof -
    have "is_ident_char (hd s)" using all that by simp
    then show ?thesis using ident_char_plain by blast
  qed
qed

lemma policy_entry_facts:
  assumes on: "option_name option" and pv: "plain_value value"
  defines "bare \<equiv> upper option"
  defines "e \<equiv> upper option @ ''='' @ value"
  shows "strip e = e" "is_policy_line bare e" "\<not> list_ex is_linebreak e"
proof -
  have ob: "option_name bare" unfolding bare_def using on by (rule option_name_upper)
  have e: "e = bare @ CHR ''='' # value" by (simp add: e_def bare_def)
  have ne: "e \<noteq> []" by (simp add: e)
  have hd_e: "hd e \<noteq> CHR ''#'' \<and> hd e \<noteq> CHR ''['' \<and> \<not> is_space (hd e)"
  proof (cases "bare = []")
    case True
    then show ?thesis by (simp add: e is_space_def)
  next
    case False
    then have "hd e = hd bare" by (simp add: e)
    then show ?thesis using option_name_plain(6)[OF ob False] by simp
  qed
  have last_e: "\<not> is_space (last e)"
  proof (cases "value = []")
    case True
    then show ?thesis by (simp add: e is_space_def)
  next
    case False
    then have "last e = last value" by (simp add: e)
    then show ?thesis using pv False by (simp add: plain_value_def)
  qed
  show s: "strip e = e" using ne hd_e last_e by (simp add: strip_id)
  have pre1: "\<not> prefix ''#'' e"
    using ne hd_e by (cases e) auto
  have pre2: "\<not> prefix ''['' e"
    using ne hd_e by (cases e) auto
  have eq_in: "CHR ''='' \<in> set e" by (simp add: e)
  have "before_eq e = bare"
    unfolding before_eq_def e using option_name_plain(3)[OF ob]
    by (auto simp: takeWhile_tail)
  moreover have "strip bare = bare" using option_name_plain(1)[OF ob] by (rule strip_no_space)
  moreover have "upper bare = bare" by (simp add: bare_def upper_idem)
  ultimately have "upper (strip (before_eq e)) = bare" by simp
  then show "is_policy_line bare e"
    unfolding is_policy_line_def Let_def s using pre1 pre2 eq_in by blast
  show "\<not> list_ex is_linebreak e"
    using option_name_plain(2)[OF ob] pv
    by (simp add: e plain_value_def one_line_def is_linebreak_def)
qed

lemma set_policy_entry_found:
  assumes "first_index (is_policy_line (upper option)) (splitlines text) = Some i"
    and "strip (splitlines text ! i) = upper option @ ''='' @ value"
  shows "set_policy_entry text option value section = (text, False)"
  using assms by (simp add: set_policy_entry_def Let_def)

lemma set_policy_entry_settled:
  assumes on: "option_name option" and pv: "plain_value value"
    and L: "splitlines t1 = L1" and j: "first_index (is_policy_line (upper option)) L1 = Some j"
    and at: "L1 ! j = upper option @ ''='' @ value"
  shows "set_policy_entry t1 option value section = (t1, False)"
proof (rule set_policy_entry_found)
  show "first_index (is_policy_line (upper option)) (splitlines t1) = Some j"
    using L j by simp
  show "strip (splitlines t1 ! j) = upper option @ ''='' @ value"
    using L at policy_entry_facts(1)[OF on pv] by simp
qed

lemma join_append_nl: "join [NL] (L @ [NL # h, e]) = join [NL] (L @ [[], h, e])"
proof (induction L)
  case Nil
  then show ?case by simp
next
  case (Cons x xs)
  have "xs @ [NL # h, e] \<noteq> []" "xs @ [[], h, e] \<noteq> []" by simp_all
  then show ?case using Cons.IH by (simp add: join_Cons)
qed

lemma set_insert_at: "x \<in> set (insert_at k e L) \<Longrightarrow> x = e \<or> x \<in> set L"
  by (auto simp: insert_at_def dest: in_set_takeD in_set_dropD)

lemma not_policy_line_Nil: "\<not> is_policy_line bare []"
  by (simp add: is_policy_line_def strip_def)

lemma not_policy_line_header: "\<not> is_policy_line bare (''['' @ section @ '']'')"
proof -
  obtain r where "strip (CHR ''['' # section @ '']'') = CHR ''['' # r"
    using strip_hd[of "CHR ''[''" "section @ '']''"] by (auto simp: is_space_def)
  then show ?thesis by (simp add: is_policy_line_def Let_def)
qed

lemma set_policy_entry_twice:
  assumes on: "option_name option" and pv: "plain_value value" and sec: "one_line section"
  shows "set_policy_entry (fst (set_policy_entry text option value section)) option value section
           = (fst (set_policy_entry text option value section), False)"
proof -
  define L where "L = splitlines text"
  define e where "e = upper option @ ''='' @ value"
  define hdr where "hdr = ''['' @ section @ '']''"
  let ?P = "is_policy_line (upper option)"
  note facts = policy_entry_facts[OF on pv, folded e_def]
  have Lok: "\<And>l. l \<in> set L \<Longrightarrow> \<not> list_ex is_linebreak l"
    unfolding L_def by (rule splitlines_no_linebreak)
  have settle: "set_policy_entry (join [NL] L1 @ [NL]) option value section
                  = (join [NL] L1 @ [NL], False)"
    if ne: "L1 \<noteq> []" and ok: "\<And>l. l \<in> set L1 \<Longrightarrow> \<not> list_ex is_linebreak l"
      and j: "first_index ?P L1 = Some j" and at: "L1 ! j = e" for L1 j
  proof (rule set_policy_entry_settled[OF on pv _ j])
    show "splitlines (join [NL] L1 @ [NL]) = L1" using ne ok by (rule splitlines_join)
    show "L1 ! j = upper option @ ''='' @ value" using at by (simp add: e_def)
  qed
  show ?thesis
  proof (cases "first_index ?P L")
    case (Some i)
    then have i: "i < length L" using first_index_Some by blast
    show ?thesis
    proof (cases "strip (L ! i) = e")
      case True
      then have "set_policy_entry text option value section = (text, False)"
        using Some unfolding L_def e_def by (rule set_policy_entry_found[rotated])
      then show ?thesis by simp
    next
      case False
      then have first: "set_policy_entry text option value section
                          = (join [NL] (L[i := e]) @ [NL], True)"
        using Some by (simp add: set_policy_entry_def Let_def L_def e_def)
      have "set_policy_entry (join [NL] (L[i := e]) @ [NL]) option value section
              = (join [NL] (L[i := e]) @ [NL], False)"
      proof (rule settle[where j = i])
        show "L[i := e] \<noteq> []" using i by auto
        show "\<not> list_ex is_linebreak l" if "l \<in> set (L[i := e])" for l
          using that Lok facts(3) by (auto dest: set_update_subset_insert[THEN subsetD])
        show "first_index ?P (L[i := e]) = Some i"
          using Some facts(2) by (rule first_index_update)
        show "L[i := e] ! i = e" using i by simp
      qed
      then show ?thesis by (simp add: first)
    qed
  next
    case None
    then have noP: "\<not> list_ex ?P L" by (simp add: first_index_None)
    show ?thesis
    proof (cases "section_scan hdr L 0 False None")
      case (Some k)
      then have first: "set_policy_entry text option value section
                          = (join [NL] (insert_at k e L) @ [NL], True)"
        using None by (simp add: set_policy_entry_def Let_def L_def e_def hdr_def)
      obtain j where j: "first_index ?P (insert_at k e L) = Some j" "insert_at k e L ! j = e"
        using first_index_insert[OF noP facts(2)] by blast
      have "set_policy_entry (join [NL] (insert_at k e L) @ [NL]) option value section
              = (join [NL] (insert_at k e L) @ [NL], False)"
      proof (rule settle[OF _ _ j])
        show "insert_at k e L \<noteq> []" by (simp add: insert_at_def)
        show "\<not> list_ex is_linebreak l" if "l \<in> set (insert_at k e L)" for l
          using set_insert_at[OF that] Lok facts(3) by auto
      qed
      then show ?thesis by (simp add: first)
    next
      case None2: None
      let ?L1 = "L @ [[], hdr, e]"
      have first: "set_policy_entry text option value section = (join [NL] ?L1 @ [NL], True)"
        using None None2
        by (simp add: set_policy_entry_def Let_def L_def e_def hdr_def join_append_nl)
      have hdr_ok: "\<not> list_ex is_linebreak hdr"
        using sec by (simp add: hdr_def one_line_def is_linebreak_def)
      have "\<not> list_ex ?P (L @ [[], hdr])"
        using noP not_policy_line_Nil not_policy_line_header[of "upper option" "section"]
        by (simp add: hdr_def)
      then have j: "first_index ?P ((L @ [[], hdr]) @ e # []) = Some (length (L @ [[], hdr]))"
        using facts(2) by (rule first_index_append)
      have "set_policy_entry (join [NL] ?L1 @ [NL]) option value section
              = (join [NL] ?L1 @ [NL], False)"
      proof (rule settle[where j = "length L + 2"])
        show "?L1 \<noteq> []" by simp
        show "\<not> list_ex is_linebreak l" if "l \<in> set ?L1" for l
          using that Lok facts(3) hdr_ok by auto
        show "first_index ?P ?L1 = Some (length L + 2)" using j by simp
        show "?L1 ! (length L + 2) = e" by (simp add: nth_append)
      qed
      then show ?thesis by (simp add: first)
    qed
  qed
qed

lemma readme_row_facts:
  assumes "one_line option" "one_line opt_type" "one_line desc"
  defines "key \<equiv> ''`'' @ option @ ''`''"
  defines "row \<equiv> ''| `'' @ option @ ''` | '' @ opt_type @ '' | '' @ desc @ '' |''"
  shows "strip row = row" "is_readme_row key row" "\<not> list_ex is_linebreak row" "sublist key row"
proof -
  have r: "row = ''| '' @ key @ '' | '' @ opt_type @ '' | '' @ desc @ '' |''"
    by (simp add: row_def key_def)
  have "row \<noteq> []" "\<not> is_space (hd row)" "\<not> is_space (last row)"
    by (simp_all add: row_def is_space_def)
  then show "strip row = row" by (rule strip_id)
  show sub: "sublist key row" unfolding r by (rule sublist_appendI)
  have "prefix ''|'' row" by (simp add: row_def)
  then show "is_readme_row key row" using sub by (simp add: is_readme_row_def)
  show "\<not> list_ex is_linebreak row"
    using assms(1-3) by (simp add: row_def one_line_def is_linebreak_def)
qed

lemma add_readme_entry_found:
  assumes "sublist (''`'' @ option @ ''`'') text"
    and "first_index (is_readme_row (''`'' @ option @ ''`'')) (splitlines text) = Some i"
    and "strip (splitlines text ! i) = ''| `'' @ option @ ''` | '' @ opt_type @ '' | '' @ desc @ '' |''"
  shows "add_readme_entry text option heading opt_type desc = (text, False)"
  using assms by (simp add: add_readme_entry_def Let_def)

lemma add_readme_entry_twice:
  assumes o: "one_line option" and ty: "one_line opt_type" and de: "one_line desc"
  shows "add_readme_entry (fst (add_readme_entry text option heading opt_type desc))
            option heading opt_type desc
           = (fst (add_readme_entry text option heading opt_type desc), False)"
proof -
  define L where "L = splitlines text"
  define key where "key = ''`'' @ option @ ''`''"
  define row where "row = ''| `'' @ option @ ''` | '' @ opt_type @ '' | '' @ desc @ '' |''"
  let ?R = "is_readme_row key"
  note facts = readme_row_facts[OF o ty de, folded key_def row_def]
  have Lok: "\<And>l. l \<in> set L \<Longrightarrow> \<not> list_ex is_linebreak l"
    unfolding L_def by (rule splitlines_no_linebreak)
  have settle: "add_readme_entry (join [NL] L1 @ [NL]) option heading opt_type desc
                  = (join [NL] L1 @ [NL], False)"
    if ne: "L1 \<noteq> []" and ok: "\<And>l. l \<in> set L1 \<Longrightarrow> \<not> list_ex is_linebreak l"
      and j: "first_index ?R L1 = Some j" and at: "L1 ! j = row" for L1 j
  proof -
    have sp: "splitlines (join [NL] L1 @ [NL]) = L1" using ne ok by (rule splitlines_join)
    have "j < length L1" using first_index_Some[OF j] by simp
    then have "row \<in> set L1" using at by (metis nth_mem)
    then have "sublist row (join [NL] L1)" by (rule sublist_join)
    then have "sublist key (join [NL] L1 @ [NL])"
      using facts(4) by (meson sublist_order.order_trans sublist_append_rightI)
    then show ?thesis
      unfolding key_def
    proof (rule add_readme_entry_found)
      show "first_index (is_readme_row (''`'' @ option @ ''`'')) (splitlines (join [NL] L1 @ [NL]))
              = Some j"
        using j by (simp add: sp key_def)
      show "strip (splitlines (join [NL] L1 @ [NL]) ! j)
              = ''| `'' @ option @ ''` | '' @ opt_type @ '' | '' @ desc @ '' |''"
        using at facts(1) by (simp add: sp row_def)
    qed
  qed
  have insert_case: ?thesis
    if eq: "add_readme_entry text option heading opt_type desc = add_readme_insert text heading row"
      and noR: "\<not> list_ex ?R L"
  proof (cases "table_scan (''## '' @ heading) L 0 False False None")
    case None
    then have first: "add_readme_entry text option heading opt_type desc = (text, False)"
      using eq by (simp add: add_readme_insert_def Let_def L_def)
    then show ?thesis by simp
  next
    case (Some k)
    then have first: "add_readme_entry text option heading opt_type desc
                        = (join [NL] (insert_at k row L) @ [NL], True)"
      using eq by (simp add: add_readme_insert_def Let_def L_def)
    obtain j where j: "first_index ?R (insert_at k row L) = Some j" "insert_at k row L ! j = row"
      using first_index_insert[OF noR facts(2)] by blast
    have "add_readme_entry (join [NL] (insert_at k row L) @ [NL]) option heading opt_type desc
            = (join [NL] (insert_at k row L) @ [NL], False)"
    proof (rule settle[OF _ _ j])
      show "insert_at k row L \<noteq> []" by (simp add: insert_at_def)
      show "\<not> list_ex is_linebreak l" if "l \<in> set (insert_at k row L)" for l
        using set_insert_at[OF that] Lok facts(3) by auto
    qed
    then show ?thesis by (simp add: first)
  qed
  show ?thesis
  proof (cases "sublist key text")
    case False
    have "\<not> list_ex ?R L"
    proof
      assume "list_ex ?R L"
      then obtain l where "l \<in> set L" "sublist key l"
        by (auto simp: list_ex_iff is_readme_row_def)
      then have "sublist key text"
        using splitlines_sublist[of l "text"] unfolding L_def
        by (meson sublist_order.order_trans)
      then show False using False by simp
    qed
    moreover have "add_readme_entry text option heading opt_type desc
                     = add_readme_insert text heading row"
      using False by (simp add: add_readme_entry_def Let_def key_def row_def)
    ultimately show ?thesis by (intro insert_case)
  next
    case True
    show ?thesis
    proof (cases "first_index ?R L")
      case None
      then have "\<not> list_ex ?R L" by (simp add: first_index_None)
      moreover have "add_readme_entry text option heading opt_type desc
                       = add_readme_insert text heading row"
        using True None by (simp add: add_readme_entry_def Let_def key_def row_def L_def)
      ultimately show ?thesis by (intro insert_case)
    next
      case (Some i)
      then have i: "i < length L" using first_index_Some by blast
      show ?thesis
      proof (cases "strip (L ! i) = row")
        case eq: True
        have "add_readme_entry text option heading opt_type desc = (text, False)"
          using True Some eq unfolding key_def row_def L_def by (rule add_readme_entry_found)
        then show ?thesis by simp
      next
        case False
        then have first: "add_readme_entry text option heading opt_type desc
                            = (join [NL] (L[i := row]) @ [NL], True)"
          using True Some by (simp add: add_readme_entry_def Let_def key_def row_def L_def)
        have "add_readme_entry (join [NL] (L[i := row]) @ [NL]) option heading opt_type desc
                = (join [NL] (L[i := row]) @ [NL], False)"
        proof (rule settle[where j = i])
          show "L[i := row] \<noteq> []" using i by auto
          show "\<not> list_ex is_linebreak l" if "l \<in> set (L[i := row])" for l
            using that Lok facts(3) by (auto dest: set_update_subset_insert[THEN subsetD])
          show "first_index ?R (L[i := row]) = Some i"
            using Some facts(2) by (rule first_index_update)
          show "L[i := row] ! i = row" using i by simp
        qed
        then show ?thesis by (simp add: first)
      qed
    qed
  qed
qed

text \<open>
  Claim C5, as stated: each of \<open>set_config_line\<close>, \<open>set_policy_entry\<close> and
  \<open>add_readme_entry\<close>, applied to its own output with the same arguments, returns that
  text unchanged with \<open>changed\<close> false, for every option and value. It does not: with a
  line feed in the value the second \<open>set_config_line\<close> rewrites the first line of its own
  output and the text grows, and with a value that ends in a blank the second
  \<open>set_policy_entry\<close> compares the stripped line with the entry, finds them different
  and reports a change again.
\<close>

theorem set_twice_counterexample:
  "set_config_line ''CONFIG_X=o'' ''X'' ''a\<newline>b'' = Inr (''CONFIG_X=a\<newline>b'', True)
   \<and> set_config_line ''CONFIG_X=a\<newline>b'' ''X'' ''a\<newline>b'' = Inr (''CONFIG_X=a\<newline>b\<newline>b'', True)
   \<and> set_policy_entry [] ''FOO'' ''m '' ''s'' = (''\<newline>[s]\<newline>FOO=m \<newline>'', True)
   \<and> set_policy_entry ''\<newline>[s]\<newline>FOO=m \<newline>'' ''FOO'' ''m '' ''s''
       = (''\<newline>[s]\<newline>FOO=m \<newline>'', True)"
  by code_simp

text \<open>
  Claim C5, amended. For an option name of letters, digits and underscores, a value on
  one line without backslash that does not end in white space, and a policy section, a
  README type and a README description on one line each: \<open>set_config_line\<close> returns
  (it raises no error), and each of \<open>set_config_line\<close>, \<open>set_policy_entry\<close> and
  \<open>add_readme_entry\<close>, applied to its own output with the same arguments, returns that
  text unchanged with \<open>changed\<close> false.
\<close>

theorem set_twice_changes_nothing:
  assumes "option_name option" "plain_value value" "one_line section" "one_line opt_type"
    and "one_line desc"
  shows "(\<exists>t1 c1. set_config_line text option value = Inr (t1, c1)
                   \<and> set_config_line t1 option value = Inr (t1, False))
         \<and> set_policy_entry (fst (set_policy_entry ptext option value section)) option value section
             = (fst (set_policy_entry ptext option value section), False)
         \<and> add_readme_entry (fst (add_readme_entry dtext option heading opt_type desc))
               option heading opt_type desc
             = (fst (add_readme_entry dtext option heading opt_type desc), False)"
proof (intro conjI)
  have nl: "NL \<notin> set value"
    using assms(2) NL_linebreak by (auto simp: plain_value_def one_line_def list_ex_iff)
  have bs: "BSL \<notin> set value" using assms(2) by (simp add: plain_value_def)
  show "\<exists>t1 c1. set_config_line text option value = Inr (t1, c1)
                   \<and> set_config_line t1 option value = Inr (t1, False)"
    using set_config_line_segs_twice[OF option_name_plain(4)[OF assms(1)] bs
            option_name_plain(5)[OF assms(1)] nl, of "text"]
    by (simp add: set_config_line_by_segments[OF option_name_plain(5)[OF assms(1)]])
  show "set_policy_entry (fst (set_policy_entry ptext option value section)) option value section
             = (fst (set_policy_entry ptext option value section), False)"
    using assms(1-3) by (rule set_policy_entry_twice)
  have "one_line option"
    using option_name_plain(2)[OF assms(1)] by (simp add: one_line_def)
  then show "add_readme_entry (fst (add_readme_entry dtext option heading opt_type desc))
               option heading opt_type desc
             = (fst (add_readme_entry dtext option heading opt_type desc), False)"
    using assms(4,5) by (rule add_readme_entry_twice)
qed

theorem set_twice_changes_nothing_witness:
  "option_name ''USB_UAS'' \<and> plain_value ''m'' \<and> one_line ''usb'' \<and> one_line ''module''
   \<and> one_line ''USB Attached SCSI''
   \<and> (\<exists>t1 c1. set_config_line ''CONFIG_USB_UAS=y\<newline>CONFIG_B=n\<newline>'' ''USB_UAS'' ''m'' = Inr (t1, c1)
                \<and> set_config_line t1 ''USB_UAS'' ''m'' = Inr (t1, False))
   \<and> set_policy_entry (fst (set_policy_entry ''[usb]\<newline>A=y\<newline>'' ''USB_UAS'' ''m'' ''usb''))
         ''USB_UAS'' ''m'' ''usb''
       = (fst (set_policy_entry ''[usb]\<newline>A=y\<newline>'' ''USB_UAS'' ''m'' ''usb''), False)
   \<and> fst (set_policy_entry ''[usb]\<newline>A=y\<newline>'' ''USB_UAS'' ''m'' ''usb'')
       = ''[usb]\<newline>A=y\<newline>USB_UAS=m\<newline>''
   \<and> add_readme_entry
         (fst (add_readme_entry readme_example ''USB_UAS'' ''USB Support'' ''module'' ''USB Attached SCSI''))
         ''USB_UAS'' ''USB Support'' ''module'' ''USB Attached SCSI''
       = (fst (add_readme_entry readme_example ''USB_UAS'' ''USB Support'' ''module''
                 ''USB Attached SCSI''), False)
   \<and> fst (add_readme_entry readme_example ''USB_UAS'' ''USB Support'' ''module'' ''USB Attached SCSI'')
       = readme_example_set"
proof -
  have h1: "option_name ''USB_UAS''" by code_simp
  have h2: "plain_value ''m''" by code_simp
  have h3: "one_line ''usb''" by code_simp
  have h4: "one_line ''module''" by code_simp
  have h5: "one_line ''USB Attached SCSI''" by code_simp
  note T = set_twice_changes_nothing[OF h1 h2 h3 h4 h5,
      where ?text = "''CONFIG_USB_UAS=y\<newline>CONFIG_B=n\<newline>''"
        and ptext = "''[usb]\<newline>A=y\<newline>''" and dtext = readme_example
        and heading = "''USB Support''"]
  have p: "fst (set_policy_entry ''[usb]\<newline>A=y\<newline>'' ''USB_UAS'' ''m'' ''usb'')
       = ''[usb]\<newline>A=y\<newline>USB_UAS=m\<newline>''"
    by code_simp
  have d: "fst (add_readme_entry readme_example ''USB_UAS'' ''USB Support'' ''module''
                 ''USB Attached SCSI'') = readme_example_set"
    by code_simp
  show ?thesis
    by (intro conjI h1 h2 h3 h4 h5 p d T[THEN conjunct1] T[THEN conjunct2, THEN conjunct1]
          T[THEN conjunct2, THEN conjunct2])
qed

end
